theory Spec2Isabelle
  imports Main "HOL-Library.Word"
begin

section \<open>The data of SemanticsEmitter.cpp\<close>

text \<open>
  The TableGen backend of \<^verbatim>\<open>utils/TableGen/SemanticsEmitter.cpp\<close> walks the
  DAG pattern of every machine instruction and flattens it into a sequence of
  \<^verbatim>\<open>NodeSemantics\<close>, which \<^verbatim>\<open>SemanticsEmitter::run\<close> prints as three arrays.
  The C++ \<^verbatim>\<open>unsigned\<close> is a \<open>32 word\<close>, \<^verbatim>\<open>uint64_t\<close> a \<open>64 word\<close>;
  sizes of vectors are natural numbers. A failed \<^verbatim>\<open>assert\<close>, an
  \<^verbatim>\<open>llvm_unreachable\<close>, a fatal error of the record keeper and an access outside a
  vector are values of the type \<open>error\<close> (assertions are taken as enabled).
\<close>

datatype error =
    llvm_unreachable string
  | assertion_failed string
  | fatal_error string
  | undefined_behaviour string

text \<open>
  \<^verbatim>\<open>MVT::SimpleValueType\<close>: the sentinel \<^verbatim>\<open>MVT::isVoid\<close> and the value types,
  each known by the name of its enumerator.
\<close>

datatype MVT = isVoid | VT string

text \<open>
  A TableGen \<^verbatim>\<open>Record\<close>: its name, the classes it derives from, and the two fields
  the emitter reads (\<^verbatim>\<open>RegClass\<close> of a RegisterOperand, \<^verbatim>\<open>Opcode\<close> of an SDNode).
\<close>

datatype Record =
  MkRecord (getName: string) (SuperClasses: "string list")
           (RegClassValue: "Record option") (OpcodeValue: "string option")

definition isSubClassOf :: "Record \<Rightarrow> string \<Rightarrow> bool" where
  "isSubClassOf R C = (C \<in> set (SuperClasses R))"

definition getValueAsDef_RegClass :: "Record \<Rightarrow> error + Record" where
  "getValueAsDef_RegClass R =
     (case RegClassValue R of
        None \<Rightarrow> Inl (fatal_error ''Record does not have a field named RegClass'')
      | Some C \<Rightarrow> Inr C)"

definition getValueAsString_Opcode :: "Record \<Rightarrow> error + string" where
  "getValueAsString_Opcode R =
     (case OpcodeValue R of
        None \<Rightarrow> Inl (fatal_error ''Record does not have a field named Opcode'')
      | Some S \<Rightarrow> Inr S)"

text \<open>The value of a leaf: an integer literal, a reference to a record, or another initializer.\<close>

datatype Init = IntInit "64 word" | DefInit Record | OtherInit string

text \<open>
  A \<^verbatim>\<open>TreePatternNode\<close>: its name (possibly empty), its inferred types, and either a
  leaf value or an operator record with the children.
\<close>

datatype TreePatternNode =
    Leaf string "MVT list" Init
  | Node string "MVT list" Record "TreePatternNode list"

fun getNodeName :: "TreePatternNode \<Rightarrow> string" where
  "getNodeName (Leaf N Ts V) = N"
| "getNodeName (Node N Ts Op Cs) = N"

fun getExtTypes :: "TreePatternNode \<Rightarrow> MVT list" where
  "getExtTypes (Leaf N Ts V) = Ts"
| "getExtTypes (Node N Ts Op Cs) = Ts"

definition getNumTypes :: "TreePatternNode \<Rightarrow> nat" where
  "getNumTypes TPN = length (getExtTypes TPN)"

fun getChildren :: "TreePatternNode \<Rightarrow> TreePatternNode list" where
  "getChildren (Leaf N Ts V) = []"
| "getChildren (Node N Ts Op Cs) = Cs"

record OperandInfo =
  Name :: string
  MIOperandNo :: "32 word"
  OperandType :: string
  Rec :: Record

record CodeGenInstruction =
  TheDef :: Record
  Namespace :: string
  CGIOperands :: "OperandInfo list"
  isCodeGenOnly :: bool

record SDNodeInfo =
  EnumName :: string
  NumResults :: "32 word"

text \<open>
  \<^verbatim>\<open>SemanticsTarget\<close>: the equivalence map of the SDNodeEquiv records, the SDNode
  information of the DAG patterns, and the constant pool. \<^verbatim>\<open>ConstantIdx\<close> is a
  \<^verbatim>\<open>std::map<uint64_t, unsigned>\<close>, kept as a list of pairs in ascending order of
  the keys, the order in which the map is traversed.
\<close>

record SemanticsTarget =
  SDNodeEquiv :: "Record \<rightharpoonup> Record"
  getSDNodeInfo :: "Record \<rightharpoonup> SDNodeInfo"
  ConstantIdx :: "(64 word \<times> 32 word) list"
  CurConstIdx :: "32 word"

record NodeSemantics =
  Opcode :: string
  Types :: "MVT list"
  Operands :: "string list"

definition emptyNS :: NodeSemantics where
  "emptyNS = \<lparr>Opcode = [], Types = [], Operands = []\<rparr>"

definition addOperand :: "string \<Rightarrow> NodeSemantics \<Rightarrow> NodeSemantics" where
  "addOperand Op NS = NS\<lparr>Operands := Operands NS @ [Op]\<rparr>"

text \<open>
  What \<^verbatim>\<open>flattenSet\<close> writes to \<^verbatim>\<open>errs()\<close> when the arity of a set is wrong: the
  two counts and the two nodes it dumps.
\<close>

datatype diagnostic = FlattenDiag nat TreePatternNode nat TreePatternNode

text \<open>
  The state of a \<^verbatim>\<open>Flattener\<close>: the target (of which it changes the constant pool),
  the semantics of the instruction built so far (\<^verbatim>\<open>I.Semantics\<close>), the set of
  eliminated implicit registers (a list, see \<open>insertImplicitReg\<close> below), the table
  of operands by name, the counter of defined values, and the error stream.
\<close>

record Flattener =
  Target :: SemanticsTarget
  Semantics :: "NodeSemantics list"
  EliminatedImplicitRegs :: "Record list"
  OperandByName :: "string \<rightharpoonup> 32 word"
  CurDefNo :: "32 word"
  errs :: "diagnostic list"

text \<open>
  Modelled from the spec: \<^verbatim>\<open>EliminatedImplicitRegs\<close> is a \<^verbatim>\<open>SmallPtrSet\<close>, whose
  code is not in the sources. It is kept as a list without repetition that is traversed
  in the order of insertion, the order the specification prescribes for it.
\<close>

definition insertImplicitReg :: "Record \<Rightarrow> Record list \<Rightarrow> Record list" where
  "insertImplicitReg R Rs = (if R \<in> set Rs then Rs else Rs @ [R])"

section \<open>Printing numbers\<close>

text \<open>
  Modelled from the spec: \<^verbatim>\<open>utostr\<close> and \<^verbatim>\<open>itostr\<close> of StringExtras.h are not in
  the sources; the specification calls the tokens they make decimal numbers. The loop
  writes the digits from the last one backwards.
\<close>

function utostr_loop :: "nat \<Rightarrow> string \<Rightarrow> string" where
  "utostr_loop X Buf =
     (if X = 0 then Buf else utostr_loop (X div 10) ((''0123456789'' ! (X mod 10)) # Buf))"
  by pat_completeness auto
termination
  by (relation "measure (\<lambda>(X, Buf). X)") auto

declare utostr_loop.simps [simp del]

definition utostr :: "nat \<Rightarrow> string" where
  "utostr X = utostr_loop X (if X = 0 then ''0'' else [])"

definition itostr :: "int \<Rightarrow> string" where
  "itostr X = (if X < 0 then CHR ''-'' # utostr (nat (- X)) else utostr (nat X))"

section \<open>The flattener\<close>

subsection \<open>Named operands and types\<close>

fun getNamedOperand_loop :: "OperandInfo list \<Rightarrow> string \<Rightarrow> OperandInfo option" where
  "getNamedOperand_loop [] N = None"
| "getNamedOperand_loop (OI # OIs) N =
     (if N = Name OI then Some OI else getNamedOperand_loop OIs N)"

definition getNamedOperand :: "CodeGenInstruction \<Rightarrow> string \<Rightarrow> OperandInfo option" where
  "getNamedOperand CGI N = (if N = [] then None else getNamedOperand_loop (CGIOperands CGI) N)"

definition setNSTypeFromNode :: "NodeSemantics \<Rightarrow> TreePatternNode \<Rightarrow> NodeSemantics" where
  "setNSTypeFromNode NS TPN =
     (if getNumTypes TPN \<noteq> 0 then NS\<lparr>Types := Types NS @ getExtTypes TPN\<rparr>
      else NS\<lparr>Types := Types NS @ [isVoid]\<rparr>)"

subsection \<open>addSemantics and addResOperand\<close>

definition addSemantics :: "NodeSemantics \<Rightarrow> Flattener \<Rightarrow> Flattener" where
  "addSemantics NS F =
     F\<lparr>CurDefNo := fold (\<lambda>T D. if T \<noteq> isVoid then D + 1 else D) (Types NS) (CurDefNo F),
       Semantics := Semantics F @ [NS]\<rparr>"

text \<open>
  \<^verbatim>\<open>FirstDefNo = CurDefNo - (Prev.Types.size() - 1)\<close> is computed in unsigned
  arithmetic and stored in an \<^verbatim>\<open>unsigned\<close>: it wraps around modulo \<open>2 ^ 32\<close>.
\<close>

definition addResOperand ::
  "NodeSemantics \<Rightarrow> NodeSemantics \<Rightarrow> Flattener \<Rightarrow> NodeSemantics \<times> Flattener" where
  "addResOperand NS Prev F =
     (let FirstDefNo = CurDefNo F - (of_nat (length (Types Prev)) - 1);
          NS' = fold (\<lambda>i N. if Types Prev ! i \<noteq> isVoid
                            then addOperand (utostr (unat (FirstDefNo + of_nat i))) N else N)
                  [0..<length (Types Prev)] NS
      in (NS', addSemantics Prev F))"

subsection \<open>The constant pool\<close>

text \<open>
  \<^verbatim>\<open>unsigned &Idx = Target.ConstantIdx[Value]; if (Idx == 0) Idx = Target.CurConstIdx++;\<close>
  The subscript of a \<^verbatim>\<open>std::map\<close> inserts a zero for a key that is absent.
\<close>

fun map_lookup :: "(64 word \<times> 32 word) list \<Rightarrow> 64 word \<Rightarrow> 32 word option" where
  "map_lookup [] K = None"
| "map_lookup ((K', V') # M) K = (if K = K' then Some V' else map_lookup M K)"

fun map_assign :: "64 word \<Rightarrow> 32 word \<Rightarrow> (64 word \<times> 32 word) list \<Rightarrow> (64 word \<times> 32 word) list" where
  "map_assign K V [] = [(K, V)]"
| "map_assign K V ((K', V') # M) =
     (if K = K' then (K, V) # M
      else if K < K' then (K, V) # (K', V') # M
      else (K', V') # map_assign K V M)"

definition internConstant :: "64 word \<Rightarrow> SemanticsTarget \<Rightarrow> 32 word \<times> SemanticsTarget" where
  "internConstant Value T =
     (let Idx = (case map_lookup (ConstantIdx T) Value of None \<Rightarrow> 0 | Some I \<Rightarrow> I)
      in if Idx = 0
         then (CurConstIdx T,
               T\<lparr>ConstantIdx := map_assign Value (CurConstIdx T) (ConstantIdx T),
                 CurConstIdx := CurConstIdx T + 1\<rparr>)
         else (Idx, T))"


subsection \<open>flattenOperand, flattenLeaf, flattenImplicit\<close>

text \<open>
  \<^verbatim>\<open>Parent\<close> is a pointer that is null at the root of a tree: an optional node.
  Adding to \<^verbatim>\<open>*Parent\<close> when it is null is undefined behaviour.
\<close>

definition addResOperand_Parent ::
  "NodeSemantics option \<Rightarrow> NodeSemantics \<Rightarrow> Flattener \<Rightarrow> error + (NodeSemantics option \<times> Flattener)" where
  "addResOperand_Parent Parent Prev F =
     (case Parent of
        None \<Rightarrow> Inl (undefined_behaviour ''null Parent'')
      | Some P \<Rightarrow> (case addResOperand P Prev F of (P', F') \<Rightarrow> Inr (Some P', F')))"

definition normalizeRegisterOperand :: "Record \<Rightarrow> error + Record" where
  "normalizeRegisterOperand OpRec =
     (if isSubClassOf OpRec ''RegisterOperand'' then getValueAsDef_RegClass OpRec else Inr OpRec)"

definition flattenOperand ::
  "CodeGenInstruction \<Rightarrow> TreePatternNode \<Rightarrow> NodeSemantics option \<Rightarrow> OperandInfo \<Rightarrow> Flattener
   \<Rightarrow> error + (NodeSemantics option \<times> Flattener)" where
  "flattenOperand CGI TPN Parent OpInfo F =
     (let Op = setNSTypeFromNode emptyNS TPN in
      case normalizeRegisterOperand (Rec OpInfo) of
        Inl e \<Rightarrow> Inl e
      | Inr OpRec \<Rightarrow>
          if isSubClassOf OpRec ''Operand'' then
            (if OperandType OpInfo = ''OPERAND_IMMEDIATE'' then
               addResOperand_Parent Parent
                 (addOperand (utostr (unat (MIOperandNo OpInfo))) (Op\<lparr>Opcode := ''DCINS::CONSTANT_OP''\<rparr>)) F
             else
               (let Op1 = addOperand (Namespace CGI @ ''::OpTypes::'' @ getName OpRec)
                            (Op\<lparr>Opcode := ''DCINS::CUSTOM_OP''\<rparr>)
                in case OperandByName F (Name OpInfo) of
                     None \<Rightarrow>
                       addResOperand_Parent Parent
                         (addOperand (utostr (unat (MIOperandNo OpInfo))) Op1)
                         (F\<lparr>OperandByName := (OperandByName F)(Name OpInfo \<mapsto> CurDefNo F)\<rparr>)
                   | Some D \<Rightarrow>
                       (case Parent of
                          None \<Rightarrow> Inl (undefined_behaviour ''null Parent'')
                        | Some P \<Rightarrow> Inr (Some (addOperand (utostr (unat D)) P), F))))
          else if isSubClassOf OpRec ''RegisterClass'' then
            addResOperand_Parent Parent
              (addOperand (utostr (unat (MIOperandNo OpInfo))) (Op\<lparr>Opcode := ''DCINS::GET_RC''\<rparr>)) F
          else Inl (llvm_unreachable ''Unknown operand type''))"

definition flattenLeaf ::
  "CodeGenInstruction \<Rightarrow> TreePatternNode \<Rightarrow> NodeSemantics option \<Rightarrow> Flattener
   \<Rightarrow> error + (NodeSemantics option \<times> Flattener)" where
  "flattenLeaf CGI TPN Parent F =
     (case TPN of
        Node N Ts Operator Cs \<Rightarrow> Inl (assertion_failed ''getLeafValue: not a leaf'')
      | Leaf N Ts V \<Rightarrow>
          (case V of
             IntInit Value \<Rightarrow>
               (let Mov = (setNSTypeFromNode emptyNS TPN)\<lparr>Opcode := ''DCINS::MOV_CONSTANT''\<rparr>
                in case internConstant Value (Target F) of
                     (Idx, T') \<Rightarrow>
                       addResOperand_Parent Parent (addOperand (utostr (unat Idx)) Mov)
                         (F\<lparr>Target := T'\<rparr>))
           | DefInit OpRec \<Rightarrow>
               (let Op = setNSTypeFromNode emptyNS TPN in
                if isSubClassOf OpRec ''Register'' then
                  addResOperand_Parent Parent
                    (addOperand (Namespace CGI @ ''::'' @ getName OpRec)
                       (Op\<lparr>Opcode := ''DCINS::GET_REG''\<rparr>)) F
                else Inl (llvm_unreachable ''Unknown operand type''))
           | OtherInit S \<Rightarrow> Inl (assertion_failed ''cast<IntInit>: incompatible type'')))"

fun getLeafValue :: "TreePatternNode \<Rightarrow> error + Init" where
  "getLeafValue (Leaf N Ts V) = Inr V"
| "getLeafValue (Node N Ts Operator Cs) = Inl (assertion_failed ''getLeafValue: not a leaf'')"

fun getAsString :: "Init \<Rightarrow> string" where
  "getAsString (IntInit Value) = itostr (sint Value)"
| "getAsString (DefInit R) = getName R"
| "getAsString (OtherInit S) = S"

fun flattenImplicit_loop ::
  "CodeGenInstruction \<Rightarrow> TreePatternNode list \<Rightarrow> NodeSemantics \<Rightarrow> error + NodeSemantics" where
  "flattenImplicit_loop CGI [] NS = Inr NS"
| "flattenImplicit_loop CGI (C # Cs) NS =
     (case getLeafValue C of
        Inl e \<Rightarrow> Inl e
      | Inr V \<Rightarrow> flattenImplicit_loop CGI Cs (addOperand (Namespace CGI @ ''::'' @ getAsString V) NS))"

definition flattenImplicit ::
  "CodeGenInstruction \<Rightarrow> TreePatternNode \<Rightarrow> NodeSemantics \<Rightarrow> error + NodeSemantics" where
  "flattenImplicit CGI TPN NS =
     flattenImplicit_loop CGI (getChildren TPN) (NS\<lparr>Opcode := ''DCINS::IMPLICIT''\<rparr>)"

subsection \<open>The two loops of flattenSet\<close>

text \<open>
  The body of the first loop, for the destination \<open>Child\<close> and the value \<open>DefNo\<close>
  (\<^verbatim>\<open>FirstDefNo + i\<close>). A record that is neither a RegisterClass nor a Register
  takes neither branch: the node keeps the opcode it was constructed with.
\<close>

definition flattenSet_put ::
  "CodeGenInstruction \<Rightarrow> TreePatternNode \<Rightarrow> 32 word \<Rightarrow> Flattener \<Rightarrow> error + Flattener" where
  "flattenSet_put CGI Child DefNo F =
     (case getLeafValue Child of
        Inl e \<Rightarrow> Inl e
      | Inr V \<Rightarrow>
          (case V of
             DefInit OpRec0 \<Rightarrow>
               (case normalizeRegisterOperand OpRec0 of
                  Inl e \<Rightarrow> Inl e
                | Inr OpRec \<Rightarrow>
                    (let NS = emptyNS\<lparr>Types := [isVoid]\<rparr> in
                     case (if isSubClassOf OpRec ''RegisterClass'' then
                             (case getNamedOperand CGI (getNodeName Child) of
                                None \<Rightarrow> Inl (assertion_failed ''set output operand not found in instruction'')
                              | Some OpInfo \<Rightarrow>
                                  Inr (addOperand (utostr (unat (MIOperandNo OpInfo)))
                                         (NS\<lparr>Opcode := ''DCINS::PUT_RC''\<rparr>)))
                           else if isSubClassOf OpRec ''Register'' then
                             Inr (addOperand (Namespace CGI @ ''::'' @ getName OpRec)
                                    (NS\<lparr>Opcode := ''DCINS::PUT_REG''\<rparr>))
                           else Inr NS) of
                       Inl e \<Rightarrow> Inl e
                     | Inr NS' \<Rightarrow> Inr (addSemantics (addOperand (utostr (unat DefNo)) NS') F)))
           | IntInit Value \<Rightarrow> Inl (assertion_failed ''cast<DefInit>: incompatible type'')
           | OtherInit S \<Rightarrow> Inl (assertion_failed ''cast<DefInit>: incompatible type'')))"

fun flattenSet_puts ::
  "CodeGenInstruction \<Rightarrow> TreePatternNode list \<Rightarrow> 32 word \<Rightarrow> nat list \<Rightarrow> Flattener
   \<Rightarrow> error + Flattener" where
  "flattenSet_puts CGI Cs FirstDefNo [] F = Inr F"
| "flattenSet_puts CGI Cs FirstDefNo (i # is) F =
     (if length Cs \<le> i then Inl (undefined_behaviour ''getChild out of range'')
      else case flattenSet_put CGI (Cs ! i) (FirstDefNo + of_nat i) F of
             Inl e \<Rightarrow> Inl e
           | Inr F' \<Rightarrow> flattenSet_puts CGI Cs FirstDefNo is F')"

text \<open>The body of the second loop: the dropped child must be a leaf that names a Register.\<close>

definition flattenSet_drop :: "TreePatternNode \<Rightarrow> Flattener \<Rightarrow> error + Flattener" where
  "flattenSet_drop Child F =
     (case Child of
        Node N Ts Operator Cs \<Rightarrow>
          Inl (assertion_failed ''Invalid SDNode equivalence: dropped non-leaf node!'')
      | Leaf N Ts V \<Rightarrow>
          (case V of
             DefInit OpRec \<Rightarrow>
               if isSubClassOf OpRec ''Register''
               then Inr (F\<lparr>EliminatedImplicitRegs := insertImplicitReg OpRec (EliminatedImplicitRegs F)\<rparr>)
               else Inl (assertion_failed ''Dropped SDNode result is not an imp-def register.'')
           | IntInit Value \<Rightarrow> Inl (assertion_failed ''cast<DefInit>: incompatible type'')
           | OtherInit S \<Rightarrow> Inl (assertion_failed ''cast<DefInit>: incompatible type'')))"

fun flattenSet_drops :: "TreePatternNode list \<Rightarrow> nat list \<Rightarrow> Flattener \<Rightarrow> error + Flattener" where
  "flattenSet_drops Cs [] F = Inr F"
| "flattenSet_drops Cs (i # is) F =
     (if length Cs \<le> i then Inl (undefined_behaviour ''getChild out of range'')
      else case flattenSet_drop (Cs ! i) F of
             Inl e \<Rightarrow> Inl e
           | Inr F' \<Rightarrow> flattenSet_drops Cs is F')"

subsection \<open>The rewriting of flattenSDNode\<close>

fun pop_back_n :: "nat \<Rightarrow> 'a list \<Rightarrow> error + 'a list" where
  "pop_back_n 0 Ts = Inr Ts"
| "pop_back_n (Suc n) Ts =
     (if Ts = [] then Inl (undefined_behaviour ''pop_back on an empty vector'')
      else pop_back_n n (butlast Ts))"

text \<open>
  The first half of \<^verbatim>\<open>flattenSDNode\<close>, before the children are flattened. The number
  of types to pop, \<^verbatim>\<open>TPN->getNumTypes() - SDNI.getNumResults()\<close>, is unsigned.
\<close>

definition flattenSDNode_rewrite ::
  "SemanticsTarget \<Rightarrow> TreePatternNode \<Rightarrow> Record \<Rightarrow> NodeSemantics \<Rightarrow> error + NodeSemantics" where
  "flattenSDNode_rewrite T TPN Operator NS =
     (case getValueAsString_Opcode Operator of
        Inl e \<Rightarrow> Inl e
      | Inr Opc \<Rightarrow>
          (case SDNodeEquiv T Operator of
             None \<Rightarrow> Inr (NS\<lparr>Opcode := Opc\<rparr>)
           | Some EquivNode \<Rightarrow>
               (case getSDNodeInfo T EquivNode of
                  None \<Rightarrow> Inl (assertion_failed ''Unknown node type!'')
                | Some SDNI \<Rightarrow>
                    (case pop_back_n (unat ((of_nat (getNumTypes TPN) :: 32 word) - NumResults SDNI))
                            (Types NS) of
                       Inl e \<Rightarrow> Inl e
                     | Inr Ts \<Rightarrow> Inr (NS\<lparr>Opcode := EnumName SDNI, Types := Ts\<rparr>)))))"

subsection \<open>flatten, flattenSet and flattenSDNode\<close>

function flatten ::
    "CodeGenInstruction \<Rightarrow> TreePatternNode \<Rightarrow> NodeSemantics option \<Rightarrow> Flattener
     \<Rightarrow> error + (NodeSemantics option \<times> Flattener)"
  and flattenSet ::
    "CodeGenInstruction \<Rightarrow> TreePatternNode \<Rightarrow> TreePatternNode list \<Rightarrow> Flattener \<Rightarrow> error + Flattener"
  and flattenSDNode ::
    "CodeGenInstruction \<Rightarrow> TreePatternNode \<Rightarrow> Record \<Rightarrow> TreePatternNode list \<Rightarrow> NodeSemantics
     \<Rightarrow> Flattener \<Rightarrow> error + (NodeSemantics \<times> Flattener)"
  and flattenSDNode_children ::
    "CodeGenInstruction \<Rightarrow> TreePatternNode list \<Rightarrow> NodeSemantics \<Rightarrow> Flattener
     \<Rightarrow> error + (NodeSemantics \<times> Flattener)"
where
  "flatten CGI TPN Parent F =
     (case getNamedOperand CGI (getNodeName TPN) of
        Some OpInfo \<Rightarrow> flattenOperand CGI TPN Parent OpInfo F
      | None \<Rightarrow>
          (case TPN of
             Leaf N Ts V \<Rightarrow> flattenLeaf CGI TPN Parent F
           | Node N Ts Operator Cs \<Rightarrow>
               (let NS = setNSTypeFromNode emptyNS TPN in
                if getName Operator = ''set'' then
                  (if Parent \<noteq> None
                   then Inl (assertion_failed ''A set node was not at the top-level?'')
                   else case flattenSet CGI TPN Cs F of
                          Inl e \<Rightarrow> Inl e
                        | Inr F' \<Rightarrow> Inr (None, F'))
                else
                  (case (if getName Operator = ''implicit'' then
                           (if Parent \<noteq> None
                            then Inl (assertion_failed ''An implicit node was not at the top-level?'')
                            else case flattenImplicit CGI TPN NS of
                                   Inl e \<Rightarrow> Inl e
                                 | Inr NS' \<Rightarrow> Inr (NS', F))
                         else if isSubClassOf Operator ''SDNode'' then
                           flattenSDNode CGI TPN Operator Cs NS F
                         else Inl (llvm_unreachable ''Unable to handle operator.'')) of
                     Inl e \<Rightarrow> Inl e
                   | Inr (NS', F') \<Rightarrow>
                       (case Parent of
                          Some P \<Rightarrow> (case addResOperand P NS' F' of (P', F'') \<Rightarrow> Inr (Some P', F''))
                        | None \<Rightarrow> Inr (None, addSemantics NS' F'))))))"
| "flattenSet CGI TPN Cs F =
     (if Cs = [] then Inl (undefined_behaviour ''getChild out of range'')
      else
        (let NumNodeDefs = length Cs - 1;
             LastChild = last Cs
         in if NumNodeDefs \<noteq> getNumTypes LastChild then
              Inr (F\<lparr>errs := errs F @
                     [FlattenDiag NumNodeDefs TPN (getNumTypes LastChild) LastChild]\<rparr>)
            else
              (case flatten CGI LastChild (Some emptyNS) F of
                 Inl e \<Rightarrow> Inl e
               | Inr (DummyNS, F1) \<Rightarrow>
                   (let NumDefs = (case DummyNS of None \<Rightarrow> 0 | Some D \<Rightarrow> length (Operands D));
                        FirstDefNo = CurDefNo F1 - of_nat NumDefs
                    in case flattenSet_puts CGI Cs FirstDefNo [0..<NumDefs] F1 of
                         Inl e \<Rightarrow> Inl e
                       | Inr F2 \<Rightarrow>
                           if NumNodeDefs < NumDefs
                           then Inl (undefined_behaviour ''getChild out of range'')
                           else flattenSet_drops Cs [NumDefs..<NumNodeDefs] F2))))"
| "flattenSDNode CGI TPN Operator Cs NS F =
     (case flattenSDNode_rewrite (Target F) TPN Operator NS of
        Inl e \<Rightarrow> Inl e
      | Inr NS1 \<Rightarrow> flattenSDNode_children CGI Cs NS1 F)"
| "flattenSDNode_children CGI [] NS F = Inr (NS, F)"
| "flattenSDNode_children CGI (C # Cs) NS F =
     (case flatten CGI C (Some NS) F of
        Inl e \<Rightarrow> Inl e
      | Inr (P, F') \<Rightarrow>
          flattenSDNode_children CGI Cs (case P of None \<Rightarrow> NS | Some NS' \<Rightarrow> NS') F')"
  by pat_completeness auto
termination
  by (relation "measure (\<lambda>x. case x of
        Inl (Inl (CGI, TPN, Parent, F)) \<Rightarrow> 3 * size TPN + 2
      | Inl (Inr (CGI, TPN, Cs, F)) \<Rightarrow> 3 * size_list size Cs + 3
      | Inr (Inl (CGI, TPN, Operator, Cs, NS, F)) \<Rightarrow> 3 * size_list size Cs + 3
      | Inr (Inr (CGI, Cs, NS, F)) \<Rightarrow> 3 * size_list size Cs)")
     (auto simp: less_Suc_eq_le intro: size_list_estimation' [OF last_in_set])

declare flatten.simps [simp del] flattenSet.simps [simp del] flattenSDNode.simps [simp del]

subsection \<open>The public flatten and the constructor of InstSemantics\<close>

text \<open>
  The public \<^verbatim>\<open>flatten(TPN)\<close> flattens one tree with a null parent and then pushes
  one \<^verbatim>\<open>DCINS::IMPLICIT\<close> node for every register of \<^verbatim>\<open>EliminatedImplicitRegs\<close>.
  It is named \<open>flattenTree\<close> here, HOL having no overloading by arity.
\<close>

definition flattenTree ::
  "CodeGenInstruction \<Rightarrow> TreePatternNode \<Rightarrow> Flattener \<Rightarrow> error + Flattener" where
  "flattenTree CGI TPN F =
     (case flatten CGI TPN None F of
        Inl e \<Rightarrow> Inl e
      | Inr (P, F1) \<Rightarrow>
          (let NS = emptyNS\<lparr>Opcode := ''DCINS::IMPLICIT'', Types := [isVoid]\<rparr>
           in Inr (F1\<lparr>Semantics :=
                     fold (\<lambda>IR Sem. Sem @ [addOperand (Namespace CGI @ ''::'' @ getName IR)
                                              (NS\<lparr>Operands := []\<rparr>)])
                       (EliminatedImplicitRegs F1) (Semantics F1)\<rparr>)))"

type_synonym TreePattern = "TreePatternNode list"

definition newFlattener :: "SemanticsTarget \<Rightarrow> diagnostic list \<Rightarrow> Flattener" where
  "newFlattener T E =
     \<lparr>Target = T, Semantics = [], EliminatedImplicitRegs = [], OperandByName = Map.empty,
      CurDefNo = 0, errs = E\<rparr>"

fun flattenTrees ::
  "CodeGenInstruction \<Rightarrow> TreePatternNode list \<Rightarrow> Flattener \<Rightarrow> error + Flattener" where
  "flattenTrees CGI [] F = Inr F"
| "flattenTrees CGI (TPN # TPNs) F =
     (case flattenTree CGI TPN F of
        Inl e \<Rightarrow> Inl e
      | Inr F' \<Rightarrow> flattenTrees CGI TPNs F')"

text \<open>
  \<^verbatim>\<open>InstSemantics(Target, CGI, TP)\<close>: a new flattener runs over every tree of the
  pattern. The result is the semantics, with the target and the error stream as the
  flattener left them.
\<close>

definition InstSemantics_pattern ::
  "SemanticsTarget \<Rightarrow> diagnostic list \<Rightarrow> CodeGenInstruction \<Rightarrow> TreePattern
   \<Rightarrow> error + (NodeSemantics list \<times> SemanticsTarget \<times> diagnostic list)" where
  "InstSemantics_pattern T E CGI TP =
     (case flattenTrees CGI TP (newFlattener T E) of
        Inl e \<Rightarrow> Inl e
      | Inr F \<Rightarrow> Inr (Semantics F, Target F, errs F))"

definition InstSemantics_default :: "NodeSemantics list" where
  "InstSemantics_default = [emptyNS\<lparr>Opcode := ''DCINS::END_OF_INSTRUCTION''\<rparr>]"

section \<open>The emitter\<close>

text \<open>
  \<^verbatim>\<open>SemanticsEmitter\<close>: the list of the semantics, the table from the enum value of
  an instruction to an index (first into \<^verbatim>\<open>InstSemas\<close>, after \<^verbatim>\<open>run\<close> the offset
  in the printed array), the target and what was written to the error stream.
\<close>

record SemanticsEmitter =
  InstSemas :: "NodeSemantics list list"
  InstIdx :: "32 word list"
  SemaTarget :: SemanticsTarget
  Diagnostics :: "diagnostic list"

definition addInstSemantics ::
  "nat \<Rightarrow> NodeSemantics list \<Rightarrow> SemanticsEmitter \<Rightarrow> error + SemanticsEmitter" where
  "addInstSemantics InstEnumValue Sema E =
     (if length (InstIdx E) \<le> InstEnumValue
      then Inl (undefined_behaviour ''InstIdx out of range'')
      else Inr (E\<lparr>InstIdx := (InstIdx E)[InstEnumValue := of_nat (length (InstSemas E))],
                 InstSemas := InstSemas E @ [Sema]\<rparr>))"

text \<open>
  The records derived from \<^verbatim>\<open>Semantics\<close>, each with the instruction it names and the
  pattern the DAG pattern parser made of its \<^verbatim>\<open>Pattern\<close> field (null when it made
  none), and the pattern of each instruction record.
\<close>

record TargetDescription =
  InstructionsByEnumValue :: "CodeGenInstruction list"
  SemanticsRecords :: "(Record \<times> TreePattern option) list"
  getInstructionPattern :: "Record \<rightharpoonup> TreePattern"

fun find_index_of :: "Record \<Rightarrow> CodeGenInstruction list \<Rightarrow> nat option" where
  "find_index_of InstDef [] = None"
| "find_index_of InstDef (CGI # CGIs) =
     (if TheDef CGI = InstDef then Some 0 else map_option Suc (find_index_of InstDef CGIs))"

fun ParseSemantics ::
  "CodeGenInstruction list \<Rightarrow> (Record \<times> TreePattern option) list \<Rightarrow> SemanticsEmitter
   \<Rightarrow> error + SemanticsEmitter" where
  "ParseSemantics CGIByEnum [] E = Inr E"
| "ParseSemantics CGIByEnum ((InstDef, Pat) # Instrs) E =
     (case find_index_of InstDef CGIByEnum of
        None \<Rightarrow> Inl (assertion_failed ''It != CGIByEnum.end()'')
      | Some i \<Rightarrow>
          (case Pat of
             None \<Rightarrow> Inl (undefined_behaviour ''null pattern'')
           | Some TP \<Rightarrow>
               (case InstSemantics_pattern (SemaTarget E) (Diagnostics E) (CGIByEnum ! i) TP of
                  Inl e \<Rightarrow> Inl e
                | Inr (Sema, T', D') \<Rightarrow>
                    (case addInstSemantics i Sema (E\<lparr>SemaTarget := T', Diagnostics := D'\<rparr>) of
                       Inl e \<Rightarrow> Inl e
                     | Inr E' \<Rightarrow> ParseSemantics CGIByEnum Instrs E'))))"

text \<open>
  The loop of the constructor over the instructions that have no semantics yet: the
  instructions still to visit and the enum value \<open>i\<close> of the first of them.
\<close>

fun usePatterns ::
  "TargetDescription \<Rightarrow> CodeGenInstruction list \<Rightarrow> nat \<Rightarrow> SemanticsEmitter
   \<Rightarrow> error + SemanticsEmitter" where
  "usePatterns TD [] i E = Inr E"
| "usePatterns TD (CGI # CGIs) i E =
     (if length (InstIdx E) \<le> i then Inl (undefined_behaviour ''InstIdx out of range'')
      else if InstIdx E ! i \<noteq> 0 then usePatterns TD CGIs (Suc i) E
      else
        (case getInstructionPattern TD (TheDef CGI) of
           None \<Rightarrow> usePatterns TD CGIs (Suc i) E
         | Some TP \<Rightarrow>
             if isCodeGenOnly CGI then usePatterns TD CGIs (Suc i) E
             else
               (case InstSemantics_pattern (SemaTarget E) (Diagnostics E) CGI TP of
                  Inl e \<Rightarrow> Inl e
                | Inr (Sema, T', D') \<Rightarrow>
                    (case addInstSemantics i Sema (E\<lparr>SemaTarget := T', Diagnostics := D'\<rparr>) of
                       Inl e \<Rightarrow> Inl e
                     | Inr E' \<Rightarrow> usePatterns TD CGIs (Suc i) E'))))"

definition newSemanticsEmitter ::
  "SemanticsTarget \<Rightarrow> TargetDescription \<Rightarrow> error + SemanticsEmitter" where
  "newSemanticsEmitter T TD =
     (let CGIByEnum = InstructionsByEnumValue TD;
          E0 = \<lparr>InstSemas = [], InstIdx = replicate (length CGIByEnum) 0,
                SemaTarget = T, Diagnostics = []\<rparr>
      in case addInstSemantics 0 InstSemantics_default E0 of
           Inl e \<Rightarrow> Inl e
         | Inr E1 \<Rightarrow>
             (case ParseSemantics CGIByEnum (SemanticsRecords TD) E1 of
                Inl e \<Rightarrow> Inl e
              | Inr E2 \<Rightarrow> usePatterns TD CGIByEnum 0 E2))"

definition newSemanticsTarget ::
  "(Record \<rightharpoonup> Record) \<Rightarrow> (Record \<rightharpoonup> SDNodeInfo) \<Rightarrow> SemanticsTarget" where
  "newSemanticsTarget Equivs Infos =
     \<lparr>SDNodeEquiv = Equivs, getSDNodeInfo = Infos, ConstantIdx = [], CurConstIdx = 1\<rparr>"

subsection \<open>run: the three arrays\<close>

text \<open>
  Only the elements of the arrays are kept: every opcode, type and operand that
  \<^verbatim>\<open>run\<close> prints followed by a comma is one element of \<^verbatim>\<open>InstSemantics[]\<close>; the
  comments with the names of the instructions are not.
\<close>

definition getEnumName :: "MVT \<Rightarrow> string" where
  "getEnumName T = (case T of isVoid \<Rightarrow> ''MVT::isVoid'' | VT N \<Rightarrow> ''MVT::'' @ N)"

definition printNode :: "NodeSemantics \<Rightarrow> string list" where
  "printNode SI = Opcode SI # map getEnumName (Types SI) @ Operands SI"

text \<open>The inner loop: what it prints and where it leaves \<^verbatim>\<open>CurSemaOffset\<close>.\<close>

fun printSemantics :: "NodeSemantics list \<Rightarrow> 32 word \<Rightarrow> string list \<times> 32 word" where
  "printSemantics [] Cur = ([], Cur)"
| "printSemantics (SI # SIs) Cur =
     (case printSemantics SIs (Cur + 1 + of_nat (length (Types SI)) + of_nat (length (Operands SI))) of
        (Out, Cur') \<Rightarrow> (printNode SI @ Out, Cur'))"

text \<open>
  The outer loop over \<^verbatim>\<open>InstIdx\<close>: the entries still to visit, the offset, and as
  result the elements printed and the new entries.
\<close>

fun printInstSemantics ::
  "NodeSemantics list list \<Rightarrow> 32 word list \<Rightarrow> 32 word \<Rightarrow> error + (string list \<times> 32 word list)" where
  "printInstSemantics Semas [] Cur = Inr ([], [])"
| "printInstSemantics Semas (Idx # Idxs) Cur =
     (if Idx = 0 then
        (case printInstSemantics Semas Idxs Cur of
           Inl e \<Rightarrow> Inl e
         | Inr (Out, Idxs') \<Rightarrow> Inr (Out, 0 # Idxs'))
      else if length Semas \<le> unat Idx then Inl (undefined_behaviour ''InstSemas out of range'')
      else
        (case printSemantics (Semas ! unat Idx) (Cur + 1) of
           (Block, Cur') \<Rightarrow>
             (case printInstSemantics Semas Idxs Cur' of
                Inl e \<Rightarrow> Inl e
              | Inr (Out, Idxs') \<Rightarrow>
                  Inr (Block @ [''DCINS::END_OF_INSTRUCTION''] @ Out, Cur # Idxs'))))"

text \<open>
  \<^verbatim>\<open>Constants[CI->second] = CI->first\<close> for every entry of the pool, in a vector of
  \<^verbatim>\<open>ConstantIdx.size() + 1\<close> zeros.
\<close>

fun fillConstants :: "(64 word \<times> 32 word) list \<Rightarrow> 64 word list \<Rightarrow> error + 64 word list" where
  "fillConstants [] Constants = Inr Constants"
| "fillConstants ((Value, Idx) # CIs) Constants =
     (if length Constants \<le> unat Idx then Inl (undefined_behaviour ''Constants out of range'')
      else fillConstants CIs (Constants[unat Idx := Value]))"

definition printConstantArray :: "SemanticsTarget \<Rightarrow> error + 64 word list" where
  "printConstantArray T =
     fillConstants (ConstantIdx T) (replicate (length (ConstantIdx T) + 1) 0)"

record Output =
  InstSemanticsArray :: "string list"
  OpcodeToSemaIdx :: "32 word list"
  ConstantArray :: "64 word list"

definition run :: "SemanticsEmitter \<Rightarrow> error + Output" where
  "run E =
     (case printInstSemantics (InstSemas E) (InstIdx E) 1 of
        Inl e \<Rightarrow> Inl e
      | Inr (Out, Idxs) \<Rightarrow>
          (case printConstantArray (SemaTarget E) of
             Inl e \<Rightarrow> Inl e
           | Inr Constants \<Rightarrow>
               Inr \<lparr>InstSemanticsArray = ''DCINS::END_OF_INSTRUCTION'' # Out,
                    OpcodeToSemaIdx = Idxs,
                    ConstantArray = Constants\<rparr>))"

section \<open>Sessions of the constant pool\<close>

text \<open>
  The literals an emission session meets, in the order in which \<^verbatim>\<open>flattenLeaf\<close>
  meets them, are a list \<open>Vs\<close>. \<open>internAll Vs T\<close> is the target after all of them
  were interned, and \<open>firstSeen Vs\<close> the distinct literals in the order of their first
  occurrence. \<open>pool_lists Fs T\<close> says that the pool of \<open>T\<close> holds exactly the
  literals \<open>Fs\<close>, the one at position \<open>j\<close> under the index \<open>j + 1\<close>.
\<close>

definition firstSeen :: "'a list \<Rightarrow> 'a list" where
  "firstSeen Vs = fold (\<lambda>V Seen. if V \<in> set Seen then Seen else Seen @ [V]) Vs []"

definition internAll :: "64 word list \<Rightarrow> SemanticsTarget \<Rightarrow> SemanticsTarget" where
  "internAll Vs T = fold (\<lambda>V T'. snd (internConstant V T')) Vs T"

definition pool_lists :: "64 word list \<Rightarrow> SemanticsTarget \<Rightarrow> bool" where
  "pool_lists Fs T \<longleftrightarrow>
     distinct Fs \<and> sorted_wrt (<) (map fst (ConstantIdx T)) \<and>
     length (ConstantIdx T) = length Fs \<and>
     CurConstIdx T = of_nat (Suc (length Fs)) \<and>
     (\<forall>K I. map_lookup (ConstantIdx T) K = Some I \<longleftrightarrow>
            (\<exists>j < length Fs. Fs ! j = K \<and> I = of_nat (Suc j)))"

text \<open>
  The integer literals that \<^verbatim>\<open>flatten\<close> meets in a tree, in the order in which it
  meets them. A node that names an operand of the instruction goes to
  \<^verbatim>\<open>flattenOperand\<close>, which does not look below it; of a set only the last child is
  flattened, and only when the arity is right; the children of an implicit node are
  read, not flattened; the children of an SDNode are flattened from left to right.
\<close>

function literals :: "CodeGenInstruction \<Rightarrow> TreePatternNode \<Rightarrow> 64 word list" where
  "literals CGI TPN =
     (case getNamedOperand CGI (getNodeName TPN) of
        Some OpInfo \<Rightarrow> []
      | None \<Rightarrow>
          (case TPN of
             Leaf N Ts V \<Rightarrow> (case V of IntInit Value \<Rightarrow> [Value] | DefInit R \<Rightarrow> [] | OtherInit S \<Rightarrow> [])
           | Node N Ts Operator Cs \<Rightarrow>
               if getName Operator = ''set'' then
                 (if Cs \<noteq> [] \<and> length Cs - 1 = getNumTypes (last Cs)
                  then literals CGI (last Cs) else [])
               else if getName Operator = ''implicit'' then []
               else if isSubClassOf Operator ''SDNode'' then concat (map (literals CGI) Cs)
               else []))"
  by pat_completeness auto
termination
  by (relation "measure (\<lambda>(CGI, TPN). size TPN)")
     (auto simp: less_Suc_eq_le intro: size_list_estimation' [OF last_in_set] size_list_estimation')

declare literals.simps [simp del]

definition patternLiterals :: "CodeGenInstruction \<Rightarrow> TreePattern \<Rightarrow> 64 word list" where
  "patternLiterals CGI TP = concat (map (literals CGI) TP)"

text \<open>
  The instructions to which the constructor of the emitter gives semantics, and the
  literals its two loops meet. \<open>namedBySemantics TD i\<close>: a record derived from
  \<^verbatim>\<open>Semantics\<close> names the instruction with the enum value \<open>i\<close>. \<open>usedPattern TD i\<close>:
  the pattern of the instruction record that the second loop flattens for \<open>i\<close>, if
  any. \<open>hasSemantics TD i\<close>: one of the two loops calls \<^verbatim>\<open>addInstSemantics\<close> for
  \<open>i\<close>.
\<close>

definition namedBySemantics :: "TargetDescription \<Rightarrow> nat \<Rightarrow> bool" where
  "namedBySemantics TD i \<longleftrightarrow>
     (\<exists>(InstDef, Pat) \<in> set (SemanticsRecords TD).
         find_index_of InstDef (InstructionsByEnumValue TD) = Some i)"

definition usedPattern :: "TargetDescription \<Rightarrow> nat \<Rightarrow> TreePattern option" where
  "usedPattern TD i =
     (if namedBySemantics TD i then None
      else case getInstructionPattern TD (TheDef (InstructionsByEnumValue TD ! i)) of
             None \<Rightarrow> None
           | Some TP \<Rightarrow> if isCodeGenOnly (InstructionsByEnumValue TD ! i) then None else Some TP)"

definition hasSemantics :: "TargetDescription \<Rightarrow> nat \<Rightarrow> bool" where
  "hasSemantics TD i \<longleftrightarrow> namedBySemantics TD i \<or> usedPattern TD i \<noteq> None"

definition recordLiterals ::
  "CodeGenInstruction list \<Rightarrow> (Record \<times> TreePattern option) list \<Rightarrow> 64 word list" where
  "recordLiterals CGIByEnum Instrs =
     concat (map (\<lambda>(InstDef, Pat).
                    case find_index_of InstDef CGIByEnum of
                      None \<Rightarrow> []
                    | Some i \<Rightarrow>
                        (case Pat of None \<Rightarrow> [] | Some TP \<Rightarrow> patternLiterals (CGIByEnum ! i) TP))
               Instrs)"

definition sessionLiterals :: "TargetDescription \<Rightarrow> 64 word list" where
  "sessionLiterals TD =
     recordLiterals (InstructionsByEnumValue TD) (SemanticsRecords TD) @
     concat (map (\<lambda>i. case usedPattern TD i of
                         None \<Rightarrow> []
                       | Some TP \<Rightarrow> patternLiterals (InstructionsByEnumValue TD ! i) TP)
               [0..<length (InstructionsByEnumValue TD)])"

text \<open>
  \<open>flattenedFor TD i Sema\<close>: \<open>Sema\<close> is what the constructor of \<^verbatim>\<open>InstSemantics\<close>
  makes, for some state of the constant pool and of the error stream, of a pattern of
  the instruction \<open>i\<close>: the pattern of its record or that of a \<^verbatim>\<open>Semantics\<close>
  record that names it.
\<close>

definition flattenedFor :: "TargetDescription \<Rightarrow> nat \<Rightarrow> NodeSemantics list \<Rightarrow> bool" where
  "flattenedFor TD i Sema \<longleftrightarrow>
     (\<exists>TP T D T' D'.
         InstSemantics_pattern T D (InstructionsByEnumValue TD ! i) TP = Inr (Sema, T', D') \<and>
         (getInstructionPattern TD (TheDef (InstructionsByEnumValue TD ! i)) = Some TP \<or>
          (\<exists>InstDef. (InstDef, Some TP) \<in> set (SemanticsRecords TD) \<and>
                     find_index_of InstDef (InstructionsByEnumValue TD) = Some i)))"

text \<open>
  \<open>installed Q E\<close>: the emitter holds the dummy semantics, and every entry of
  \<^verbatim>\<open>InstIdx\<close> other than 0 is the index of semantics in \<^verbatim>\<open>InstSemas\<close> that have
  the property \<open>Q\<close> for the instruction.
\<close>

definition installed :: "(nat \<Rightarrow> NodeSemantics list \<Rightarrow> bool) \<Rightarrow> SemanticsEmitter \<Rightarrow> bool" where
  "installed Q E \<longleftrightarrow>
     0 < length (InstSemas E) \<and>
     (\<forall>i < length (InstIdx E). InstIdx E ! i \<noteq> 0 \<longrightarrow>
        unat (InstIdx E ! i) < length (InstSemas E) \<and> Q i (InstSemas E ! unat (InstIdx E ! i)))"

section \<open>The printed block of an instruction\<close>

text \<open>
  What \<^verbatim>\<open>run\<close> prints for one instruction: its nodes, each as opcode, types and
  operands, and the terminating \<^verbatim>\<open>DCINS::END_OF_INSTRUCTION\<close>.
\<close>

definition printBlock :: "NodeSemantics list \<Rightarrow> string list" where
  "printBlock Sema = concat (map printNode Sema) @ [''DCINS::END_OF_INSTRUCTION'']"


section \<open>An example target\<close>

text \<open>
  A small target in the style of X86, used to run the definitions: a register class, a
  flag register, two operand kinds, the operators \<open>set\<close>, \<open>add\<close>, a store and an
  addition that also defines the flags and is declared equivalent to \<open>add\<close>.
\<close>

definition i32 :: MVT where "i32 = VT ''i32''"
definition GPR :: Record where "GPR = MkRecord ''GPR'' [''RegisterClass''] None None"
definition EFLAGS :: Record where "EFLAGS = MkRecord ''EFLAGS'' [''Register''] None None"
definition i32imm :: Record where "i32imm = MkRecord ''i32imm'' [''Operand''] None None"
definition i32mem :: Record where "i32mem = MkRecord ''i32mem'' [''Operand''] None None"
definition set_op :: Record where "set_op = MkRecord ''set'' [] None None"
definition add :: Record where "add = MkRecord ''add'' [''SDNode''] None (Some ''ISD::ADD'')"
definition X86add_flag :: Record where
  "X86add_flag = MkRecord ''X86add_flag'' [''SDNode''] None (Some ''X86ISD::ADD'')"
definition st :: Record where "st = MkRecord ''st'' [''SDNode''] None (Some ''ISD::STORE'')"

definition RegOp :: "string \<Rightarrow> 32 word \<Rightarrow> OperandInfo" where
  "RegOp N No = \<lparr>Name = N, MIOperandNo = No, OperandType = ''OPERAND_REGISTER'', Rec = GPR\<rparr>"

definition ADD32rr :: CodeGenInstruction where
  "ADD32rr = \<lparr>TheDef = MkRecord ''ADD32rr'' [''Instruction''] None None, Namespace = ''X86'',
     CGIOperands = [RegOp ''dst'' 0, RegOp ''a'' 1, RegOp ''b'' 2,
        \<lparr>Name = ''addr'', MIOperandNo = 3, OperandType = ''OPERAND_MEMORY'', Rec = i32mem\<rparr>,
        \<lparr>Name = ''imm'', MIOperandNo = 8, OperandType = ''OPERAND_IMMEDIATE'', Rec = i32imm\<rparr>],
     isCodeGenOnly = False\<rparr>"

definition X86Target :: SemanticsTarget where
  "X86Target = newSemanticsTarget [X86add_flag \<mapsto> add]
                 [add \<mapsto> \<lparr>EnumName = ''ISD::ADD'', NumResults = 1\<rparr>]"

definition PlainTarget :: SemanticsTarget where
  "PlainTarget = newSemanticsTarget Map.empty Map.empty"

definition S1 :: TreePatternNode where
  "S1 = Node [] [] set_op [Leaf ''dst'' [i32] (DefInit GPR),
          Node [] [i32] add [Leaf ''a'' [i32] (DefInit GPR), Leaf ''b'' [i32] (DefInit GPR)]]"

definition S3 :: TreePatternNode where
  "S3 = Node [] [] set_op [Leaf ''dst'' [i32] (DefInit GPR),
          Node [] [i32] add [Leaf ''a'' [i32] (DefInit GPR), Leaf ''a'' [i32] (DefInit GPR)]]"

definition S5 :: TreePatternNode where
  "S5 = Node [] [] set_op [Leaf ''dst'' [i32] (DefInit GPR), Leaf [] [i32] (DefInit EFLAGS),
          Node [] [i32, i32] X86add_flag
            [Leaf ''a'' [i32] (DefInit GPR), Leaf ''b'' [i32] (DefInit GPR)]]"

definition S6 :: TreePatternNode where
  "S6 = Node [] [] set_op [Leaf ''dst'' [i32] (DefInit GPR),
          Node [] [i32] add [Leaf ''addr'' [i32] (DefInit i32mem), Leaf ''addr'' [i32] (DefInit i32mem)]]"

definition StoreFlags :: TreePatternNode where
  "StoreFlags = Node [] [] st
     [Node [] [i32, i32] X86add_flag
        [Leaf ''a'' [i32] (DefInit GPR), Leaf ''b'' [i32] (DefInit GPR)]]"

definition BadArity :: TreePatternNode where
  "BadArity = Node [] [] set_op [Leaf ''dst'' [i32] (DefInit GPR), Leaf [] [i32] (DefInit EFLAGS),
          Node [] [i32] add [Leaf ''a'' [i32] (DefInit GPR), Leaf ''b'' [i32] (DefInit GPR)]]"

definition SetImm :: TreePatternNode where
  "SetImm = Node [] [] set_op [Leaf ''imm'' [i32] (DefInit i32imm),
          Node [] [i32] add [Leaf ''a'' [i32] (DefInit GPR), Leaf ''b'' [i32] (DefInit GPR)]]"

text \<open>A pattern of two trees, the first of which drops the flag register.\<close>

definition TwoTrees :: TreePattern where
  "TwoTrees = [S5, S1]"


text \<open>
  Four instructions by enum value; the second has the pattern \<open>S1\<close>, the last one a
  pattern whose set has the wrong arity.
\<close>

definition PHI :: CodeGenInstruction where
  "PHI = \<lparr>TheDef = MkRecord ''PHI'' [''Instruction''] None None, Namespace = ''TargetOpcode'',
     CGIOperands = [], isCodeGenOnly = False\<rparr>"

definition NOOP :: CodeGenInstruction where
  "NOOP = \<lparr>TheDef = MkRecord ''NOOP'' [''Instruction''] None None, Namespace = ''X86'',
     CGIOperands = [], isCodeGenOnly = False\<rparr>"

definition ADC32rr :: CodeGenInstruction where
  "ADC32rr = ADD32rr\<lparr>TheDef := MkRecord ''ADC32rr'' [''Instruction''] None None\<rparr>"

definition X86Description :: TargetDescription where
  "X86Description =
     \<lparr>InstructionsByEnumValue = [PHI, ADD32rr, NOOP, ADC32rr],
      SemanticsRecords = [],
      getInstructionPattern = [TheDef ADD32rr \<mapsto> [S1], TheDef ADC32rr \<mapsto> [BadArity]]\<rparr>"

definition X86Emitter :: "error + SemanticsEmitter" where
  "X86Emitter = newSemanticsEmitter X86Target X86Description"

text \<open>
  Three instructions with an immediate: the patterns of the first and the last add the
  literal 1234, a \<^verbatim>\<open>Semantics\<close> record gives the second one a pattern that adds 7.
\<close>

definition S2 :: TreePatternNode where
  "S2 = Node [] [] set_op [Leaf ''dst'' [i32] (DefInit GPR),
          Node [] [i32] add [Leaf ''a'' [i32] (DefInit GPR), Leaf [] [i32] (IntInit 1234)]]"

definition S2b :: TreePatternNode where
  "S2b = Node [] [] set_op [Leaf ''dst'' [i32] (DefInit GPR),
          Node [] [i32] add [Leaf ''a'' [i32] (DefInit GPR), Leaf [] [i32] (IntInit 7)]]"

definition ADD32ri :: CodeGenInstruction where
  "ADD32ri = ADD32rr\<lparr>TheDef := MkRecord ''ADD32ri'' [''Instruction''] None None\<rparr>"

definition SUB32ri :: CodeGenInstruction where
  "SUB32ri = ADD32rr\<lparr>TheDef := MkRecord ''SUB32ri'' [''Instruction''] None None\<rparr>"

definition AND32ri :: CodeGenInstruction where
  "AND32ri = ADD32rr\<lparr>TheDef := MkRecord ''AND32ri'' [''Instruction''] None None\<rparr>"

definition ImmDescription :: TargetDescription where
  "ImmDescription =
     \<lparr>InstructionsByEnumValue = [PHI, ADD32ri, SUB32ri, AND32ri],
      SemanticsRecords = [(TheDef SUB32ri, Some [S2b])],
      getInstructionPattern = [TheDef ADD32ri \<mapsto> [S2], TheDef AND32ri \<mapsto> [S2]]\<rparr>"

definition ImmEmitter :: "error + SemanticsEmitter" where
  "ImmEmitter = newSemanticsEmitter X86Target ImmDescription"

section \<open>Properties of addResOperand\<close>

lemma utostr_small:
  "utostr 0 = ''0''" "utostr 1 = ''1''" "utostr 2 = ''2''" "utostr 3 = ''3''"
  by code_simp+

lemma fold_defno_all_void:
  "\<forall>T \<in> set Ts. T = isVoid \<Longrightarrow> fold (\<lambda>T D. if T \<noteq> isVoid then D + 1 else D) Ts (D0 :: 32 word) = D0"
  by (induction Ts arbitrary: D0) auto

lemma fold_operands_all_void:
  "\<forall>i \<in> set Is. Ts ! i = isVoid \<Longrightarrow>
   fold (\<lambda>i N. if Ts ! i \<noteq> isVoid then addOperand (f i) N else N) Is NS = NS"
  by (induction Is arbitrary: NS) auto

text \<open>
  Claim C9. When every type entry of the child \<open>Prev\<close> is \<^verbatim>\<open>MVT::isVoid\<close>,
  \<^verbatim>\<open>addResOperand\<close> returns the parent as it was (no operand token is appended),
  leaves the counter \<^verbatim>\<open>CurDefNo\<close> where it stood, and still appends the child to the
  semantics of the instruction; nothing else of the flattener changes.
\<close>

theorem C9_addResOperand_void_child:
  assumes "\<forall>T \<in> set (Types Prev). T = isVoid"
  shows "addResOperand NS Prev F = (NS, F\<lparr>Semantics := Semantics F @ [Prev]\<rparr>) \<and>
         Operands (fst (addResOperand NS Prev F)) = Operands NS \<and>
         CurDefNo (snd (addResOperand NS Prev F)) = CurDefNo F \<and>
         Semantics (snd (addResOperand NS Prev F)) = Semantics F @ [Prev]"
proof -
  have ops: "fold (\<lambda>i N. if Types Prev ! i \<noteq> isVoid
                then addOperand (utostr (unat (CurDefNo F - (of_nat (length (Types Prev)) - 1) + of_nat i))) N
                else N) [0..<length (Types Prev)] NS = NS"
    using assms by (intro fold_operands_all_void) simp
  have cnt: "fold (\<lambda>T D. if T \<noteq> isVoid then D + 1 else D) (Types Prev) (CurDefNo F) = CurDefNo F"
    using assms by (rule fold_defno_all_void)
  have first: "addResOperand NS Prev F = (NS, F\<lparr>Semantics := Semantics F @ [Prev]\<rparr>)"
    by (simp add: addResOperand_def addSemantics_def Let_def ops cnt)
  show ?thesis
    by (simp add: first)
qed

theorem C9_witness:
  "addResOperand \<lparr>Opcode = ''ISD::STORE'', Types = [isVoid], Operands = [''0'']\<rparr>
     \<lparr>Opcode = ''DCINS::IMPLICIT'', Types = [isVoid], Operands = [''X86::EFLAGS'']\<rparr>
     (newFlattener (newSemanticsTarget Map.empty Map.empty) []) =
   (\<lparr>Opcode = ''ISD::STORE'', Types = [isVoid], Operands = [''0'']\<rparr>,
    (newFlattener (newSemanticsTarget Map.empty Map.empty) [])
      \<lparr>Semantics := Semantics (newFlattener (newSemanticsTarget Map.empty Map.empty) []) @
         [\<lparr>Opcode = ''DCINS::IMPLICIT'', Types = [isVoid], Operands = [''X86::EFLAGS'']\<rparr>]\<rparr>)"
  using C9_addResOperand_void_child
    [of "\<lparr>Opcode = ''DCINS::IMPLICIT'', Types = [isVoid], Operands = [''X86::EFLAGS'']\<rparr>"
        "\<lparr>Opcode = ''ISD::STORE'', Types = [isVoid], Operands = [''0'']\<rparr>"
        "newFlattener (newSemanticsTarget Map.empty Map.empty) []"]
  by simp

text \<open>
  Claim C2 says that the tokens which \<^verbatim>\<open>addResOperand\<close> appends to the parent are
  the DefNos the results of the child acquire. The code takes
  \<^verbatim>\<open>CurDefNo - (Prev.Types.size() - 1)\<close> as the first of them, before the child is
  appended, which is right only when the last type is the only one that is not void. A
  child with the two types \<open>i32, i32\<close>, appended when the counter is 0, defines the
  values 0 and 1, and the tokens are 4294967295 and 0. In the tree
  \<open>(st (X86add_flag GPR:$a, GPR:$b))\<close> the addition defines the values 2 and 3, and
  the store is given the tokens 1 and 2.
\<close>

theorem C2_addResOperand_two_results:
  "Operands (fst (addResOperand emptyNS
       \<lparr>Opcode = ''X86ISD::ADD'', Types = [VT ''i32'', VT ''i32''], Operands = []\<rparr>
       (newFlattener PlainTarget []))) = [''4294967295'', ''0''] \<and>
   CurDefNo (snd (addResOperand emptyNS
       \<lparr>Opcode = ''X86ISD::ADD'', Types = [VT ''i32'', VT ''i32''], Operands = []\<rparr>
       (newFlattener PlainTarget []))) = 2 \<and>
   map_sum id Semantics (flattenTree ADD32rr StoreFlags (newFlattener PlainTarget [])) =
     Inr [\<lparr>Opcode = ''DCINS::GET_RC'', Types = [VT ''i32''], Operands = [''1'']\<rparr>,
          \<lparr>Opcode = ''DCINS::GET_RC'', Types = [VT ''i32''], Operands = [''2'']\<rparr>,
          \<lparr>Opcode = ''X86ISD::ADD'', Types = [VT ''i32'', VT ''i32''], Operands = [''0'', ''1'']\<rparr>,
          \<lparr>Opcode = ''ISD::STORE'', Types = [isVoid], Operands = [''1'', ''2'']\<rparr>]"
proof -
  have big: "utostr (unat (- 1 :: 32 word)) = ''4294967295''"
    by (simp add: unsigned_minus_1_eq_mask mask_eq_exp_minus_1 utostr_def utostr_loop.simps)
  have tokens: "Operands (fst (addResOperand emptyNS
       \<lparr>Opcode = ''X86ISD::ADD'', Types = [VT ''i32'', VT ''i32''], Operands = []\<rparr>
       (newFlattener PlainTarget []))) = [''4294967295'', ''0'']"
    by (simp add: addResOperand_def newFlattener_def addOperand_def emptyNS_def big utostr_small)
  have defs: "CurDefNo (snd (addResOperand emptyNS
       \<lparr>Opcode = ''X86ISD::ADD'', Types = [VT ''i32'', VT ''i32''], Operands = []\<rparr>
       (newFlattener PlainTarget []))) = 2"
    by (simp add: addResOperand_def newFlattener_def addSemantics_def)
  have tree: "map_sum id Semantics (flattenTree ADD32rr StoreFlags (newFlattener PlainTarget [])) =
     Inr [\<lparr>Opcode = ''DCINS::GET_RC'', Types = [VT ''i32''], Operands = [''1'']\<rparr>,
          \<lparr>Opcode = ''DCINS::GET_RC'', Types = [VT ''i32''], Operands = [''2'']\<rparr>,
          \<lparr>Opcode = ''X86ISD::ADD'', Types = [VT ''i32'', VT ''i32''], Operands = [''0'', ''1'']\<rparr>,
          \<lparr>Opcode = ''ISD::STORE'', Types = [isVoid], Operands = [''1'', ''2'']\<rparr>]"
    by code_simp
  show ?thesis
    using tokens defs tree by (intro conjI)
qed


section \<open>What flattening a tree leaves unchanged\<close>

text \<open>
  A relation between the state of the flattener before and after that is reflexive and
  transitive, and holds for every step that changes the state (appending a node,
  writing a diagnostic, a named operand, a leaf, dropping a destination), holds for
  \<^verbatim>\<open>flatten\<close>, \<^verbatim>\<open>flattenSet\<close> and \<^verbatim>\<open>flattenSDNode\<close>. An instance: the table of
  operands by name only grows.
\<close>

lemma flatten_frame:
  assumes rf: "\<And>F. R F F"
    and tr: "\<And>F G H. R F G \<Longrightarrow> R G H \<Longrightarrow> R F H"
    and sem: "\<And>NS F. R F (addSemantics NS F)"
    and diag: "\<And>F D. R F (F\<lparr>errs := errs F @ [D]\<rparr>)"
    and opnd: "\<And>CGI TPN Parent OpInfo F P' F'.
                 flattenOperand CGI TPN Parent OpInfo F = Inr (P', F') \<Longrightarrow> R F F'"
    and leaf: "\<And>CGI TPN Parent F P' F'.
                 flattenLeaf CGI TPN Parent F = Inr (P', F') \<Longrightarrow> R F F'"
    and drop: "\<And>Child F F'. flattenSet_drop Child F = Inr F' \<Longrightarrow> R F F'"
  shows "flatten CGI TPN Parent F = Inr (P', F') \<Longrightarrow> R F F'"
    and "flattenSet CGI TPN Cs F = Inr F1 \<Longrightarrow> R F F1"
    and "flattenSDNode CGI TPN Operator Cs NS F = Inr (NS', F2) \<Longrightarrow> R F F2"
    and "flattenSDNode_children CGI Cs NS F = Inr (NS'', F3) \<Longrightarrow> R F F3"
proof -
  have res: "R F (snd (addResOperand P NS F))" for P NS F
    by (simp add: addResOperand_def Let_def sem)
  have put: "R F F'" if "flattenSet_put CGI Child DefNo F = Inr F'" for CGI Child DefNo F F'
    using that
    by (auto simp: flattenSet_put_def Let_def sem
        split: sum.splits Init.splits if_splits option.splits)
  have puts: "R F F'" if "flattenSet_puts CGI Cs FirstDefNo Is F = Inr F'"
    for CGI Cs FirstDefNo Is F F'
    using that
  proof (induction Is arbitrary: F)
    case Nil
    then show ?case by (simp add: rf)
  next
    case (Cons i Is)
    then obtain F0 where "flattenSet_put CGI (Cs ! i) (FirstDefNo + of_nat i) F = Inr F0"
      "flattenSet_puts CGI Cs FirstDefNo Is F0 = Inr F'"
      by (auto split: if_splits sum.splits)
    then show ?case
      using put Cons.IH tr by blast
  qed
  have drops: "R F F'" if "flattenSet_drops Cs Is F = Inr F'" for Cs Is F F'
    using that
  proof (induction Is arbitrary: F)
    case Nil
    then show ?case by (simp add: rf)
  next
    case (Cons i Is)
    then obtain F0 where "flattenSet_drop (Cs ! i) F = Inr F0"
      "flattenSet_drops Cs Is F0 = Inr F'"
      by (auto split: if_splits sum.splits)
    then show ?case
      using drop Cons.IH tr by blast
  qed
  show "flatten CGI TPN Parent F = Inr (P', F') \<Longrightarrow> R F F'"
    and "flattenSet CGI TPN Cs F = Inr F1 \<Longrightarrow> R F F1"
    and "flattenSDNode CGI TPN Operator Cs NS F = Inr (NS', F2) \<Longrightarrow> R F F2"
    and "flattenSDNode_children CGI Cs NS F = Inr (NS'', F3) \<Longrightarrow> R F F3"
  proof (induction CGI TPN Parent F and CGI TPN Cs F and CGI TPN Operator Cs NS F and CGI Cs NS F
      arbitrary: P' F' and F1 and NS' F2 and NS'' F3
      rule: flatten_flattenSet_flattenSDNode_flattenSDNode_children.induct)
    case (1 CGI TPN Parent F)
    show ?case
    proof (cases "getNamedOperand CGI (getNodeName TPN)")
      case (Some OpInfo)
      then show ?thesis
        using "1.prems" opnd by (simp add: flatten.simps)
    next
      case None
      show ?thesis
      proof (cases TPN)
        case (Leaf N Ts V)
        then show ?thesis
          using "1.prems" None leaf by (simp add: flatten.simps)
      next
        case (Node N Ts Operator Cs)
        show ?thesis
        proof (cases "getName Operator = ''set''")
          case True
          then obtain F1 where "flattenSet CGI TPN Cs F = Inr F1" "F' = F1" "Parent = None"
            using "1.prems" None Node
            by (auto simp: flatten.simps split: if_splits sum.splits)
          then show ?thesis
            using "1.IH"(1) [OF None Node refl True] by simp
        next
          case False
          show ?thesis
          proof (cases "getName Operator = ''implicit''")
            case True
            then obtain NS1 where "F' = addSemantics NS1 F"
              using "1.prems" None Node False
              by (auto simp: flatten.simps Let_def
                  split: if_splits sum.splits option.splits prod.splits)
            then show ?thesis
              by (simp add: sem)
          next
            case notimp: False
            then obtain NS1 F2 where sd:
              "isSubClassOf Operator ''SDNode''"
              "flattenSDNode CGI TPN Operator Cs (setNSTypeFromNode emptyNS TPN) F = Inr (NS1, F2)"
              and last: "R F2 F'"
              using "1.prems" None Node False res sem
              by (auto simp: flatten.simps Let_def
                  split: if_splits sum.splits option.splits prod.splits)
                 (metis snd_conv)
            have "R F F2"
              using "1.IH"(2) [OF None Node refl False notimp sd(1,2)] .
            then show ?thesis
              using last tr by blast
          qed
        qed
      qed
    qed
  next
    case (2 CGI TPN Cs F)
    show ?case
    proof (cases "Cs \<noteq> [] \<and> length Cs - 1 = getNumTypes (last Cs)")
      case True
      then obtain D F0 F2 where steps:
        "flatten CGI (last Cs) (Some emptyNS) F = Inr (D, F0)"
        "flattenSet_puts CGI Cs
           (CurDefNo F0 - of_nat (case D of None \<Rightarrow> 0 | Some D' \<Rightarrow> length (Operands D')))
           [0..<(case D of None \<Rightarrow> 0 | Some D' \<Rightarrow> length (Operands D'))] F0 = Inr F2"
        "flattenSet_drops Cs
           [(case D of None \<Rightarrow> 0 | Some D' \<Rightarrow> length (Operands D'))..<length Cs - 1] F2 = Inr F1"
        using "2.prems"
        by (auto simp: flattenSet.simps Let_def split: if_splits sum.splits prod.splits)
      have "R F F0"
        using "2.IH" [OF _ refl refl _ steps(1)] True by simp
      moreover have "R F0 F2"
        using steps(2) by (rule puts)
      moreover have "R F2 F1"
        using steps(3) by (rule drops)
      ultimately show ?thesis
        using tr by blast
    next
      case False
      then show ?thesis
        using "2.prems" diag
        by (auto simp: flattenSet.simps Let_def split: if_splits)
    qed
  next
    case (3 CGI TPN Operator Cs NS F)
    then show ?case
      by (auto simp: flattenSDNode.simps split: sum.splits)
  next
    case (4 CGI NS F)
    then show ?case by (simp add: rf)
  next
    case (5 CGI C Cs NS F)
    from "5.prems" obtain P F0 where steps:
      "flatten CGI C (Some NS) F = Inr (P, F0)"
      "flattenSDNode_children CGI Cs (case P of None \<Rightarrow> NS | Some NS' \<Rightarrow> NS') F0 = Inr (NS'', F3)"
      by (auto split: sum.splits)
    have "R F F0"
      using "5.IH"(1) [OF steps(1)] .
    moreover have "R F0 F3"
      using "5.IH"(2) [OF steps(1) refl steps(2)] .
    ultimately show ?case
      using tr by blast
  qed
qed


lemma OperandByName_addResOperand_Parent:
  "addResOperand_Parent Parent NS F = Inr (P', F') \<Longrightarrow> OperandByName F' = OperandByName F"
  by (auto simp: addResOperand_Parent_def addResOperand_def addSemantics_def Let_def
      split: option.splits)

lemma Target_addResOperand_Parent:
  "addResOperand_Parent Parent NS F = Inr (P', F') \<Longrightarrow> Target F' = Target F"
  by (auto simp: addResOperand_Parent_def addResOperand_def addSemantics_def Let_def
      split: option.splits)

lemma flatten_OperandByName_le:
  assumes "flatten CGI TPN Parent F = Inr (P', F')"
  shows "OperandByName F \<subseteq>\<^sub>m OperandByName F'"
proof (rule flatten_frame(1) [where R = "\<lambda>F F'. OperandByName F \<subseteq>\<^sub>m OperandByName F'", OF _ _ _ _ _ _ _ assms])
  show "\<And>F G H. OperandByName F \<subseteq>\<^sub>m OperandByName G \<Longrightarrow>
          OperandByName G \<subseteq>\<^sub>m OperandByName H \<Longrightarrow> OperandByName F \<subseteq>\<^sub>m OperandByName H"
    by (rule map_le_trans)
  show "\<And>CGI TPN Parent OpInfo F P' F'.
          flattenOperand CGI TPN Parent OpInfo F = Inr (P', F') \<Longrightarrow>
          OperandByName F \<subseteq>\<^sub>m OperandByName F'"
    by (auto simp: flattenOperand_def Let_def map_le_def domIff
        split: sum.splits if_splits option.splits
        dest!: OperandByName_addResOperand_Parent)
  show "\<And>CGI TPN Parent F P' F'.
          flattenLeaf CGI TPN Parent F = Inr (P', F') \<Longrightarrow>
          OperandByName F \<subseteq>\<^sub>m OperandByName F'"
    by (auto simp: flattenLeaf_def Let_def
        split: TreePatternNode.splits Init.splits prod.splits if_splits
        dest!: OperandByName_addResOperand_Parent)
  show "\<And>Child F F'. flattenSet_drop Child F = Inr F' \<Longrightarrow>
          OperandByName F \<subseteq>\<^sub>m OperandByName F'"
    by (auto simp: flattenSet_drop_def split: TreePatternNode.splits Init.splits if_splits)
qed (simp_all add: addSemantics_def)

lemma internAll_append: "internAll (Vs @ Ws) T = internAll Ws (internAll Vs T)"
  by (simp add: internAll_def)

lemma flattenTree_Target:
  "flattenTree CGI TPN F = Inr F0 \<Longrightarrow>
   \<exists>P F1. flatten CGI TPN None F = Inr (P, F1) \<and> Target F0 = Target F1 \<and>
          OperandByName F0 = OperandByName F1"
  by (auto simp: flattenTree_def Let_def split: sum.splits)

section \<open>The constant pool during a session\<close>

text \<open>
  Only \<^verbatim>\<open>flattenLeaf\<close> changes the target, and only by interning the literal of
  the leaf. So flattening a tree interns exactly the literals of the tree, in their
  order, into the pool it finds; the constructor of \<^verbatim>\<open>InstSemantics\<close> does so for
  the trees of a pattern and hands the pool back; and the two loops of the constructor
  of the emitter hand it from one instruction to the next.
\<close>

lemma Target_addSemantics: "Target (addSemantics NS F) = Target F"
  by (simp add: addSemantics_def)

lemma Target_addResOperand: "Target (snd (addResOperand P NS F)) = Target F"
  by (simp add: addResOperand_def Let_def addSemantics_def)

lemma Target_flattenOperand:
  "flattenOperand CGI TPN Parent OpInfo F = Inr (P', F') \<Longrightarrow> Target F' = Target F"
  by (auto simp: flattenOperand_def Let_def
      split: sum.splits if_splits option.splits dest!: Target_addResOperand_Parent)

lemma Target_flattenSet_put:
  "flattenSet_put CGI Child DefNo F = Inr F' \<Longrightarrow> Target F' = Target F"
  by (auto simp: flattenSet_put_def Let_def addSemantics_def
      split: sum.splits Init.splits if_splits option.splits)

lemma Target_flattenSet_puts:
  "flattenSet_puts CGI Cs FirstDefNo Is F = Inr F' \<Longrightarrow> Target F' = Target F"
proof (induction Is arbitrary: F)
  case Nil
  then show ?case by simp
next
  case (Cons i Is)
  then obtain F0 where "flattenSet_put CGI (Cs ! i) (FirstDefNo + of_nat i) F = Inr F0"
    "flattenSet_puts CGI Cs FirstDefNo Is F0 = Inr F'"
    by (auto split: if_splits sum.splits)
  then show ?case
    using Cons.IH Target_flattenSet_put by metis
qed

lemma Target_flattenSet_drop:
  "flattenSet_drop Child F = Inr F' \<Longrightarrow> Target F' = Target F"
  by (auto simp: flattenSet_drop_def split: TreePatternNode.splits Init.splits if_splits)

lemma Target_flattenSet_drops:
  "flattenSet_drops Cs Is F = Inr F' \<Longrightarrow> Target F' = Target F"
proof (induction Is arbitrary: F)
  case Nil
  then show ?case by simp
next
  case (Cons i Is)
  then obtain F0 where "flattenSet_drop (Cs ! i) F = Inr F0"
    "flattenSet_drops Cs Is F0 = Inr F'"
    by (auto split: if_splits sum.splits)
  then show ?case
    using Cons.IH Target_flattenSet_drop by metis
qed

lemma internAll_Nil: "internAll [] T = T"
  by (simp add: internAll_def)

lemma Target_flattenLeaf:
  assumes "flattenLeaf CGI TPN Parent F = Inr (P', F')"
  shows "Target F' = internAll (case TPN of Leaf N Ts (IntInit Value) \<Rightarrow> [Value] | _ \<Rightarrow> []) (Target F)"
proof (cases "\<exists>N Ts Value. TPN = Leaf N Ts (IntInit Value)")
  case True
  then obtain N Ts Value where t: "TPN = Leaf N Ts (IntInit Value)" by blast
  then have "Target F' = snd (internConstant Value (Target F))"
    using assms
    by (auto simp: flattenLeaf_def Let_def split: prod.splits
        dest!: Target_addResOperand_Parent)
  then show ?thesis
    by (simp add: t internAll_def)
next
  case False
  then have "Target F' = Target F"
    using assms
    by (auto simp: flattenLeaf_def Let_def
        split: TreePatternNode.splits Init.splits if_splits
        dest!: Target_addResOperand_Parent)
  then show ?thesis
    using False by (auto simp: internAll_def split: TreePatternNode.splits Init.splits)
qed

lemma flatten_Target_literals_all:
  shows "flatten CGI TPN Parent F = Inr (P', F') \<Longrightarrow>
           Target F' = internAll (literals CGI TPN) (Target F)"
    and "flattenSet CGI TPN Cs F = Inr F1 \<Longrightarrow>
           Target F1 = internAll (if Cs \<noteq> [] \<and> length Cs - 1 = getNumTypes (last Cs)
                                  then literals CGI (last Cs) else []) (Target F)"
    and "flattenSDNode CGI TPN Operator Cs NS F = Inr (NS', F2) \<Longrightarrow>
           Target F2 = internAll (concat (map (literals CGI) Cs)) (Target F)"
    and "flattenSDNode_children CGI Cs NS F = Inr (NS'', F3) \<Longrightarrow>
           Target F3 = internAll (concat (map (literals CGI) Cs)) (Target F)"
proof (induction CGI TPN Parent F and CGI TPN Cs F and CGI TPN Operator Cs NS F and CGI Cs NS F
      arbitrary: P' F' and F1 and NS' F2 and NS'' F3
      rule: flatten_flattenSet_flattenSDNode_flattenSDNode_children.induct)
  case (1 CGI TPN Parent F)
  show ?case
  proof (cases "getNamedOperand CGI (getNodeName TPN)")
    case (Some OpInfo)
    then have "flattenOperand CGI TPN Parent OpInfo F = Inr (P', F')"
      using "1.prems" by (simp add: flatten.simps)
    then have "Target F' = Target F"
      by (rule Target_flattenOperand)
    moreover have "literals CGI TPN = []"
      using Some by (subst literals.simps) simp
    ultimately show ?thesis
      by (simp add: internAll_Nil)
  next
    case None
    show ?thesis
    proof (cases TPN)
      case (Leaf N Ts V)
      then have "flattenLeaf CGI TPN Parent F = Inr (P', F')"
        using "1.prems" None by (simp add: flatten.simps)
      from Target_flattenLeaf [OF this]
      have "Target F' = internAll (case V of IntInit Value \<Rightarrow> [Value] | _ \<Rightarrow> []) (Target F)"
        by (simp add: Leaf)
      moreover have "literals CGI TPN = (case V of IntInit Value \<Rightarrow> [Value] | _ \<Rightarrow> [])"
        using None Leaf by (subst literals.simps) (simp split: Init.splits)
      ultimately show ?thesis
        by simp
    next
      case (Node N Ts Operator Cs)
      show ?thesis
      proof (cases "getName Operator = ''set''")
        case True
        then obtain F1 where fs: "flattenSet CGI TPN Cs F = Inr F1" and eq: "F' = F1"
          and pn: "\<not> Parent \<noteq> None"
          using "1.prems" None Node
          by (auto simp: flatten.simps split: if_splits sum.splits)
        have "Target F1 = internAll (if Cs \<noteq> [] \<and> length Cs - 1 = getNumTypes (last Cs)
                                  then literals CGI (last Cs) else []) (Target F)"
          using "1.IH"(1) [OF None Node refl True pn fs] .
        moreover have "literals CGI TPN = (if Cs \<noteq> [] \<and> length Cs - 1 = getNumTypes (last Cs)
                                  then literals CGI (last Cs) else [])"
          using None Node True by (subst literals.simps) simp
        ultimately show ?thesis
          by (simp only: eq)
      next
        case False
        show ?thesis
        proof (cases "getName Operator = ''implicit''")
          case True
          then obtain NS1 where "F' = addSemantics NS1 F"
            using "1.prems" None Node False
            by (auto simp: flatten.simps Let_def
                split: if_splits sum.splits option.splits prod.splits)
          then have "Target F' = Target F"
            by (simp add: Target_addSemantics)
          moreover have "literals CGI TPN = []"
            using None Node False True by (subst literals.simps) simp
          ultimately show ?thesis
            by (simp add: internAll_Nil)
        next
          case notimp: False
          then obtain NS1 F2 where sd:
            "isSubClassOf Operator ''SDNode''"
            "flattenSDNode CGI TPN Operator Cs (setNSTypeFromNode emptyNS TPN) F = Inr (NS1, F2)"
            and last: "Target F' = Target F2"
            using "1.prems" None Node False Target_addResOperand
            by (auto simp: flatten.simps Let_def Target_addSemantics
                split: if_splits sum.splits option.splits prod.splits)
               (metis snd_conv)
          have "Target F2 = internAll (concat (map (literals CGI) Cs)) (Target F)"
            using "1.IH"(2) [OF None Node refl False notimp sd(1,2)] .
          moreover have "literals CGI TPN = concat (map (literals CGI) Cs)"
            using None Node False notimp sd(1) by (subst literals.simps) simp
          ultimately show ?thesis
            by (simp only: last)
        qed
      qed
    qed
  qed
next
  case (2 CGI TPN Cs F)
  show ?case
  proof (cases "Cs \<noteq> [] \<and> length Cs - 1 = getNumTypes (last Cs)")
    case True
    then obtain D F0 F2 where steps:
      "flatten CGI (last Cs) (Some emptyNS) F = Inr (D, F0)"
      "flattenSet_puts CGI Cs
         (CurDefNo F0 - of_nat (case D of None \<Rightarrow> 0 | Some D' \<Rightarrow> length (Operands D')))
         [0..<(case D of None \<Rightarrow> 0 | Some D' \<Rightarrow> length (Operands D'))] F0 = Inr F2"
      "flattenSet_drops Cs
         [(case D of None \<Rightarrow> 0 | Some D' \<Rightarrow> length (Operands D'))..<length Cs - 1] F2 = Inr F1"
      using "2.prems"
      by (auto simp: flattenSet.simps Let_def split: if_splits sum.splits prod.splits)
    have "Target F0 = internAll (literals CGI (last Cs)) (Target F)"
      using "2.IH" [OF _ refl refl _ steps(1)] True by simp
    moreover have "Target F2 = Target F0"
      using steps(2) by (rule Target_flattenSet_puts)
    moreover have "Target F1 = Target F2"
      using steps(3) by (rule Target_flattenSet_drops)
    ultimately show ?thesis
      using True by simp
  next
    case False
    then show ?thesis
      using "2.prems"
      by (auto simp: flattenSet.simps Let_def internAll_Nil split: if_splits)
  qed
next
  case (3 CGI TPN Operator Cs NS F)
  from "3.prems" obtain NS1 where steps:
    "flattenSDNode_rewrite (Target F) TPN Operator NS = Inr NS1"
    "flattenSDNode_children CGI Cs NS1 F = Inr (NS', F2)"
    by (auto simp: flattenSDNode.simps split: sum.splits)
  show ?case
    using "3.IH" [OF steps] .
next
  case (4 CGI NS F)
  then show ?case by (simp add: internAll_Nil)
next
  case (5 CGI C Cs NS F)
  from "5.prems" obtain P F0 where steps:
    "flatten CGI C (Some NS) F = Inr (P, F0)"
    "flattenSDNode_children CGI Cs (case P of None \<Rightarrow> NS | Some NS' \<Rightarrow> NS') F0 = Inr (NS'', F3)"
    by (auto split: sum.splits)
  have "Target F0 = internAll (literals CGI C) (Target F)"
    using "5.IH"(1) [OF steps(1)] .
  moreover have "Target F3 = internAll (concat (map (literals CGI) Cs)) (Target F0)"
    using "5.IH"(2) [OF steps(1) refl steps(2)] .
  ultimately show ?case
    by (simp add: internAll_append)
qed

lemma flattenTrees_literals:
  "flattenTrees CGI TP F = Inr F' \<Longrightarrow> Target F' = internAll (patternLiterals CGI TP) (Target F)"
proof (induction TP arbitrary: F)
  case Nil
  then show ?case
    by (simp add: patternLiterals_def internAll_Nil)
next
  case (Cons TPN TP)
  from Cons.prems obtain F0 where tree: "flattenTree CGI TPN F = Inr F0"
    and rest: "flattenTrees CGI TP F0 = Inr F'"
    by (auto split: sum.splits)
  from flattenTree_Target [OF tree] obtain P F1 where steps:
    "flatten CGI TPN None F = Inr (P, F1)" "Target F0 = Target F1"
    by blast
  have "Target F1 = internAll (literals CGI TPN) (Target F)"
    using steps(1) by (rule flatten_Target_literals_all(1))
  moreover have "Target F' = internAll (patternLiterals CGI TP) (Target F0)"
    using rest by (rule Cons.IH)
  ultimately show ?case
    by (simp add: steps(2) patternLiterals_def internAll_append)
qed

lemma InstSemantics_pattern_literals:
  assumes "InstSemantics_pattern T D CGI TP = Inr (Sema, T', D')"
  shows "T' = internAll (patternLiterals CGI TP) T"
proof -
  from assms obtain F where f: "flattenTrees CGI TP (newFlattener T D) = Inr F" and t: "T' = Target F"
    by (auto simp: InstSemantics_pattern_def split: sum.splits)
  show ?thesis
    using flattenTrees_literals [OF f] by (simp add: t newFlattener_def)
qed

lemma addInstSemantics_Inr:
  assumes "addInstSemantics i Sema E = Inr E1"
  shows "i < length (InstIdx E)"
    and "InstSemas E1 = InstSemas E @ [Sema]"
    and "InstIdx E1 = (InstIdx E)[i := of_nat (length (InstSemas E))]"
    and "SemaTarget E1 = SemaTarget E"
    and "Diagnostics E1 = Diagnostics E"
  using assms by (auto simp: addInstSemantics_def split: if_splits)

lemma of_nat_len32:
  assumes "0 < n" "n < 2 ^ 32"
  shows "unat (of_nat n :: 32 word) = n" and "(of_nat n :: 32 word) \<noteq> 0"
proof -
  show u: "unat (of_nat n :: 32 word) = n"
    using assms(2) by (intro of_nat_inverse) simp_all
  show "(of_nat n :: 32 word) \<noteq> 0"
    using u assms(1) by (metis less_numeral_extra(3) unat_0)
qed

lemma ParseSemantics_literals:
  "ParseSemantics CGIs Instrs E = Inr E' \<Longrightarrow>
   SemaTarget E' = internAll (recordLiterals CGIs Instrs) (SemaTarget E)"
proof (induction Instrs arbitrary: E)
  case Nil
  then show ?case
    by (simp add: recordLiterals_def internAll_Nil)
next
  case (Cons a Instrs)
  obtain InstDef Pat where a: "a = (InstDef, Pat)" by (cases a)
  from Cons.prems obtain i TP Sema T' D' E1 where steps:
    "find_index_of InstDef CGIs = Some i" "Pat = Some TP"
    "InstSemantics_pattern (SemaTarget E) (Diagnostics E) (CGIs ! i) TP = Inr (Sema, T', D')"
    "addInstSemantics i Sema (E\<lparr>SemaTarget := T', Diagnostics := D'\<rparr>) = Inr E1"
    "ParseSemantics CGIs Instrs E1 = Inr E'"
    by (auto simp: a split: option.splits sum.splits)
  have "T' = internAll (patternLiterals (CGIs ! i) TP) (SemaTarget E)"
    using steps(3) by (rule InstSemantics_pattern_literals)
  moreover have "SemaTarget E1 = T'"
    using addInstSemantics_Inr(4) [OF steps(4)] by simp
  moreover have "SemaTarget E' = internAll (recordLiterals CGIs Instrs) (SemaTarget E1)"
    using steps(5) by (rule Cons.IH)
  moreover have "recordLiterals CGIs (a # Instrs) =
                 patternLiterals (CGIs ! i) TP @ recordLiterals CGIs Instrs"
    by (simp add: recordLiterals_def a steps(1,2))
  ultimately show ?case
    by (simp add: internAll_append)
qed

lemma installed_step:
  assumes inst: "installed Q E"
    and small: "length (InstSemas E) < 2 ^ 32"
    and add: "addInstSemantics i Sema (E\<lparr>SemaTarget := T', Diagnostics := D'\<rparr>) = Inr E1"
    and q: "Q i Sema"
  shows "installed Q E1"
    and "length (InstSemas E1) = Suc (length (InstSemas E))"
    and "length (InstIdx E1) = length (InstIdx E)"
    and "InstIdx E1 ! i \<noteq> 0"
    and "\<And>j. j \<noteq> i \<Longrightarrow> InstIdx E1 ! j = InstIdx E ! j"
    and "i < length (InstIdx E)"
proof -
  have pos: "0 < length (InstSemas E)"
    using inst by (simp add: installed_def)
  note a = addInstSemantics_Inr [OF add]
  have i: "i < length (InstIdx E)" using a(1) by simp
  then show "i < length (InstIdx E)" .
  have semas: "InstSemas E1 = InstSemas E @ [Sema]" using a(2) by simp
  have idx: "InstIdx E1 = (InstIdx E)[i := of_nat (length (InstSemas E))]" using a(3) by simp
  note u = of_nat_len32 [OF pos small]
  show "length (InstSemas E1) = Suc (length (InstSemas E))"
    by (simp add: semas)
  show "length (InstIdx E1) = length (InstIdx E)"
    by (simp add: idx)
  show nz: "InstIdx E1 ! i \<noteq> 0"
    using i u(2) by (simp add: idx)
  show other: "\<And>j. j \<noteq> i \<Longrightarrow> InstIdx E1 ! j = InstIdx E ! j"
    by (simp add: idx)
  show "installed Q E1"
    unfolding installed_def
  proof (intro conjI allI impI)
    show "0 < length (InstSemas E1)" by (simp add: semas)
  next
    fix j assume j: "j < length (InstIdx E1)" and jnz: "InstIdx E1 ! j \<noteq> 0"
    show "unat (InstIdx E1 ! j) < length (InstSemas E1)"
    proof (cases "j = i")
      case True
      then show ?thesis using i u(1) by (simp add: idx semas)
    next
      case False
      then have "unat (InstIdx E ! j) < length (InstSemas E)"
        using inst j jnz by (simp add: installed_def idx)
      then show ?thesis using False by (simp add: idx semas)
    qed
  next
    fix j assume j: "j < length (InstIdx E1)" and jnz: "InstIdx E1 ! j \<noteq> 0"
    show "Q j (InstSemas E1 ! unat (InstIdx E1 ! j))"
    proof (cases "j = i")
      case True
      then show ?thesis using i u(1) q by (simp add: idx semas)
    next
      case False
      then have "unat (InstIdx E ! j) < length (InstSemas E) \<and> Q j (InstSemas E ! unat (InstIdx E ! j))"
        using inst j jnz by (simp add: installed_def idx)
      then show ?thesis using False by (simp add: idx semas nth_append)
    qed
  qed
qed

lemma ParseSemantics_installed:
  assumes "ParseSemantics CGIs Instrs E = Inr E'"
    and "installed Q E"
    and "length (InstSemas E) + length Instrs < 2 ^ 32"
    and "\<forall>InstDef TP i T D Sema T' D'.
           (InstDef, Some TP) \<in> set Instrs \<and> find_index_of InstDef CGIs = Some i \<and>
           InstSemantics_pattern T D (CGIs ! i) TP = Inr (Sema, T', D') \<longrightarrow> Q i Sema"
  shows "installed Q E' \<and>
         length (InstSemas E') = length (InstSemas E) + length Instrs \<and>
         length (InstIdx E') = length (InstIdx E) \<and>
         (\<forall>i. InstIdx E' ! i \<noteq> 0 \<longleftrightarrow>
               InstIdx E ! i \<noteq> 0 \<or>
               (\<exists>(InstDef, Pat) \<in> set Instrs. find_index_of InstDef CGIs = Some i))"
  using assms
proof (induction Instrs arbitrary: E)
  case Nil
  then show ?case by simp
next
  case (Cons a Instrs)
  obtain InstDef Pat where a: "a = (InstDef, Pat)" by (cases a)
  from Cons.prems(1) obtain i TP Sema T' D' E1 where steps:
    "find_index_of InstDef CGIs = Some i" "Pat = Some TP"
    "InstSemantics_pattern (SemaTarget E) (Diagnostics E) (CGIs ! i) TP = Inr (Sema, T', D')"
    "addInstSemantics i Sema (E\<lparr>SemaTarget := T', Diagnostics := D'\<rparr>) = Inr E1"
    "ParseSemantics CGIs Instrs E1 = Inr E'"
    by (auto simp: a split: option.splits sum.splits)
  have "(InstDef, Some TP) \<in> set (a # Instrs) \<and> find_index_of InstDef CGIs = Some i \<and>
        InstSemantics_pattern (SemaTarget E) (Diagnostics E) (CGIs ! i) TP = Inr (Sema, T', D')"
    using steps(1,2,3) by (simp add: a)
  then have q: "Q i Sema"
    using Cons.prems(4) by blast
  have small: "length (InstSemas E) < 2 ^ 32"
    using Cons.prems(3) by simp
  note st = installed_step [OF Cons.prems(2) small steps(4) q]
  have bound1: "length (InstSemas E1) + length Instrs < 2 ^ 32"
    using Cons.prems(3) st(2) by simp
  have q1: "\<forall>InstDef TP i T D Sema T' D'.
           (InstDef, Some TP) \<in> set Instrs \<and> find_index_of InstDef CGIs = Some i \<and>
           InstSemantics_pattern T D (CGIs ! i) TP = Inr (Sema, T', D') \<longrightarrow> Q i Sema"
    using Cons.prems(4) by (meson list.set_intros(2))
  note IH = Cons.IH [OF steps(5) st(1) bound1 q1]
  have idx: "InstIdx E' ! j \<noteq> 0 \<longleftrightarrow>
               InstIdx E ! j \<noteq> 0 \<or>
               (\<exists>(InstDef, Pat) \<in> set (a # Instrs). find_index_of InstDef CGIs = Some j)" for j
  proof (cases "j = i")
    case True
    then show ?thesis
      using IH st(4) steps(1) by (auto simp: a)
  next
    case False
    then have "InstIdx E1 ! j = InstIdx E ! j"
      by (rule st(5))
    moreover have "find_index_of InstDef CGIs \<noteq> Some j"
      using False steps(1) by simp
    ultimately show ?thesis
      using IH by (simp add: a)
  qed
  show ?case
    using IH st(2,3) idx by simp
qed

lemma usePatterns_installed:
  assumes "usePatterns TD CGIs k E = Inr E'"
    and "installed Q E"
    and "length (InstSemas E) + length CGIs < 2 ^ 32"
    and "\<forall>j TP T D Sema T' D'.
           j < length CGIs \<and> getInstructionPattern TD (TheDef (CGIs ! j)) = Some TP \<and>
           InstSemantics_pattern T D (CGIs ! j) TP = Inr (Sema, T', D') \<longrightarrow> Q (k + j) Sema"
  shows "installed Q E' \<and>
         length (InstSemas E') \<le> length (InstSemas E) + length CGIs \<and>
         length (InstIdx E') = length (InstIdx E) \<and>
         (CGIs \<noteq> [] \<longrightarrow> k + length CGIs \<le> length (InstIdx E)) \<and>
         (\<forall>i. InstIdx E' ! i \<noteq> 0 \<longleftrightarrow>
               InstIdx E ! i \<noteq> 0 \<or>
               (k \<le> i \<and> i < k + length CGIs \<and>
                getInstructionPattern TD (TheDef (CGIs ! (i - k))) \<noteq> None \<and>
                \<not> isCodeGenOnly (CGIs ! (i - k)))) \<and>
         SemaTarget E' =
           internAll
             (concat (map (\<lambda>(i, CGI).
                        if InstIdx E ! i \<noteq> 0 then []
                        else case getInstructionPattern TD (TheDef CGI) of
                               None \<Rightarrow> []
                             | Some TP \<Rightarrow> if isCodeGenOnly CGI then [] else patternLiterals CGI TP)
                   (zip [k..<k + length CGIs] CGIs)))
             (SemaTarget E)"
  using assms
proof (induction CGIs arbitrary: k E)
  case Nil
  then show ?case by (auto simp: internAll_Nil)
next
  case (Cons CGI CGIs)
  let ?lit = "\<lambda>Idxs. \<lambda>(i, CGI).
                        if Idxs ! i \<noteq> (0 :: 32 word) then []
                        else case getInstructionPattern TD (TheDef CGI) of
                               None \<Rightarrow> []
                             | Some TP \<Rightarrow> if isCodeGenOnly CGI then [] else patternLiterals CGI TP"
  let ?has = "\<lambda>Cs k i. k \<le> i \<and> i < k + length Cs \<and>
                getInstructionPattern TD (TheDef (Cs ! (i - k))) \<noteq> None \<and>
                \<not> isCodeGenOnly (Cs ! (i - k))"
  have k: "k < length (InstIdx E)"
    using Cons.prems(1) by (auto split: if_splits)
  have range: "[k..<k + length (CGI # CGIs)] = k # [Suc k..<Suc k + length CGIs]"
    by (simp add: upt_rec)
  have has_k: "?has (CGI # CGIs) k k \<longleftrightarrow>
                 getInstructionPattern TD (TheDef CGI) \<noteq> None \<and> \<not> isCodeGenOnly CGI"
    by simp
  have has_other: "?has (CGI # CGIs) k i \<longleftrightarrow> ?has CGIs (Suc k) i" if "i \<noteq> k" for i
  proof (cases "Suc k \<le> i")
    case True
    then have "(CGI # CGIs) ! (i - k) = CGIs ! (i - Suc k)"
      by (simp add: Suc_diff_le)
    then show ?thesis
      using True by auto
  next
    case False
    then show ?thesis
      using that by auto
  qed
  have qrest: "\<forall>j TP T D Sema T' D'.
           j < length CGIs \<and> getInstructionPattern TD (TheDef (CGIs ! j)) = Some TP \<and>
           InstSemantics_pattern T D (CGIs ! j) TP = Inr (Sema, T', D') \<longrightarrow> Q (Suc k + j) Sema"
  proof (intro allI impI)
    fix j TP T D Sema T' D'
    assume "j < length CGIs \<and> getInstructionPattern TD (TheDef (CGIs ! j)) = Some TP \<and>
           InstSemantics_pattern T D (CGIs ! j) TP = Inr (Sema, T', D')"
    then have "Suc j < length (CGI # CGIs) \<and>
           getInstructionPattern TD (TheDef ((CGI # CGIs) ! Suc j)) = Some TP \<and>
           InstSemantics_pattern T D ((CGI # CGIs) ! Suc j) TP = Inr (Sema, T', D')"
      by simp
    then have "Q (k + Suc j) Sema"
      using Cons.prems(4) by blast
    then show "Q (Suc k + j) Sema" by simp
  qed
  show ?case
  proof (cases "InstIdx E ! k \<noteq> 0 \<or> getInstructionPattern TD (TheDef CGI) = None \<or> isCodeGenOnly CGI")
    case True
    have skip: "usePatterns TD CGIs (Suc k) E = Inr E'"
    proof (cases "InstIdx E ! k \<noteq> 0")
      case nz: True
      then show ?thesis using Cons.prems(1) k by simp
    next
      case z: False
      show ?thesis
      proof (cases "getInstructionPattern TD (TheDef CGI)")
        case None
        then show ?thesis using Cons.prems(1) k z by simp
      next
        case (Some TP)
        then have "isCodeGenOnly CGI" using True z by simp
        then show ?thesis using Cons.prems(1) k z Some by simp
      qed
    qed
    have bound: "length (InstSemas E) + length CGIs < 2 ^ 32"
      using Cons.prems(3) by simp
    note IH = Cons.IH [OF skip Cons.prems(2) bound qrest]
    have i1: "installed Q E'" and i2: "length (InstSemas E') \<le> length (InstSemas E) + length CGIs"
      and i3: "length (InstIdx E') = length (InstIdx E)"
      and i4: "CGIs \<noteq> [] \<longrightarrow> Suc k + length CGIs \<le> length (InstIdx E)"
      and i5: "\<forall>i. InstIdx E' ! i \<noteq> 0 \<longleftrightarrow> InstIdx E ! i \<noteq> 0 \<or> ?has CGIs (Suc k) i"
      and i6: "SemaTarget E' =
           internAll (concat (map (?lit (InstIdx E)) (zip [Suc k..<Suc k + length CGIs] CGIs)))
             (SemaTarget E)"
      using IH by blast+
    have idx: "InstIdx E' ! i \<noteq> 0 \<longleftrightarrow> InstIdx E ! i \<noteq> 0 \<or> ?has (CGI # CGIs) k i" for i
    proof (cases "i = k")
      case ik: True
      have "\<not> ?has CGIs (Suc k) k" by simp
      then have "InstIdx E' ! k \<noteq> 0 \<longleftrightarrow> InstIdx E ! k \<noteq> 0"
        using i5 by blast
      moreover have "InstIdx E ! k \<noteq> 0 \<or> \<not> ?has (CGI # CGIs) k k"
        using True has_k by blast
      ultimately show ?thesis
        unfolding ik by blast
    next
      case False
      show ?thesis
        using i5 has_other [OF False] by blast
    qed
    have lit: "?lit (InstIdx E) (k, CGI) = []"
      using True by (auto split: option.splits)
    have c2: "length (InstSemas E') \<le> length (InstSemas E) + length (CGI # CGIs)"
      using i2 by simp
    have c4: "CGI # CGIs \<noteq> [] \<longrightarrow> k + length (CGI # CGIs) \<le> length (InstIdx E)"
      using i4 k by (cases CGIs) simp_all
    have c6: "SemaTarget E' =
           internAll (concat (map (?lit (InstIdx E)) (zip [k..<k + length (CGI # CGIs)] (CGI # CGIs))))
             (SemaTarget E)"
      unfolding range using i6 lit by simp
    show ?thesis
      using i1 c2 i3 c4 idx c6 by (intro conjI allI)
  next
    case False
    then obtain TP where pat: "InstIdx E ! k = 0" "getInstructionPattern TD (TheDef CGI) = Some TP"
      "\<not> isCodeGenOnly CGI"
      by auto
    have unf: "usePatterns TD (CGI # CGIs) k E =
        (case InstSemantics_pattern (SemaTarget E) (Diagnostics E) CGI TP of
                  Inl e \<Rightarrow> Inl e
                | Inr (Sema, T', D') \<Rightarrow>
                    (case addInstSemantics k Sema (E\<lparr>SemaTarget := T', Diagnostics := D'\<rparr>) of
                       Inl e \<Rightarrow> Inl e
                     | Inr E' \<Rightarrow> usePatterns TD CGIs (Suc k) E'))"
      using k pat by simp
    from Cons.prems(1) obtain Sema T' D' E1 where steps:
      "InstSemantics_pattern (SemaTarget E) (Diagnostics E) CGI TP = Inr (Sema, T', D')"
      "addInstSemantics k Sema (E\<lparr>SemaTarget := T', Diagnostics := D'\<rparr>) = Inr E1"
      "usePatterns TD CGIs (Suc k) E1 = Inr E'"
      unfolding unf by (auto split: sum.splits)
    have "0 < length (CGI # CGIs) \<and>
           getInstructionPattern TD (TheDef ((CGI # CGIs) ! 0)) = Some TP \<and>
           InstSemantics_pattern (SemaTarget E) (Diagnostics E) ((CGI # CGIs) ! 0) TP = Inr (Sema, T', D')"
      using pat(2) steps(1) by simp
    then have "Q (k + 0) Sema"
      using Cons.prems(4) by blast
    then have q: "Q k Sema" by simp
    have small: "length (InstSemas E) < 2 ^ 32"
      using Cons.prems(3) by simp
    note st = installed_step [OF Cons.prems(2) small steps(2) q]
    have bound1: "length (InstSemas E1) + length CGIs < 2 ^ 32"
      using Cons.prems(3) st(2) by simp
    note IH = Cons.IH [OF steps(3) st(1) bound1 qrest]
    have i1: "installed Q E'" and i2: "length (InstSemas E') \<le> length (InstSemas E1) + length CGIs"
      and i3: "length (InstIdx E') = length (InstIdx E1)"
      and i4: "CGIs \<noteq> [] \<longrightarrow> Suc k + length CGIs \<le> length (InstIdx E1)"
      and i5: "\<forall>i. InstIdx E' ! i \<noteq> 0 \<longleftrightarrow> InstIdx E1 ! i \<noteq> 0 \<or> ?has CGIs (Suc k) i"
      and i6: "SemaTarget E' =
           internAll (concat (map (?lit (InstIdx E1)) (zip [Suc k..<Suc k + length CGIs] CGIs)))
             (SemaTarget E1)"
      using IH by blast+
    have t': "T' = internAll (patternLiterals CGI TP) (SemaTarget E)"
      using steps(1) by (rule InstSemantics_pattern_literals)
    have t1: "SemaTarget E1 = T'"
      using addInstSemantics_Inr(4) [OF steps(2)] by simp
    have idx: "InstIdx E' ! i \<noteq> 0 \<longleftrightarrow> InstIdx E ! i \<noteq> 0 \<or> ?has (CGI # CGIs) k i" for i
    proof (cases "i = k")
      case ik: True
      have "InstIdx E' ! k \<noteq> 0"
        using i5 st(4) by blast
      moreover have "?has (CGI # CGIs) k k"
        using has_k pat by simp
      ultimately show ?thesis
        unfolding ik by blast
    next
      case False
      have "InstIdx E1 ! i = InstIdx E ! i"
        using False by (rule st(5))
      then show ?thesis
        using i5 has_other [OF False] by metis
    qed
    have same: "map (?lit (InstIdx E1)) (zip [Suc k..<Suc k + length CGIs] CGIs) =
                map (?lit (InstIdx E)) (zip [Suc k..<Suc k + length CGIs] CGIs)"
    proof (rule map_cong [OF refl])
      fix x assume "x \<in> set (zip [Suc k..<Suc k + length CGIs] CGIs)"
      then have "fst x \<in> set [Suc k..<Suc k + length CGIs]"
        by (metis prod.collapse set_zip_leftD)
      then have "fst x \<noteq> k"
        by auto
      then have "InstIdx E1 ! fst x = InstIdx E ! fst x"
        by (rule st(5))
      then show "?lit (InstIdx E1) x = ?lit (InstIdx E) x"
        by (cases x) simp
    qed
    have lit: "?lit (InstIdx E) (k, CGI) = patternLiterals CGI TP"
      using pat by simp
    have c2: "length (InstSemas E') \<le> length (InstSemas E) + length (CGI # CGIs)"
      using i2 st(2) by simp
    have c3: "length (InstIdx E') = length (InstIdx E)"
      using i3 st(3) by simp
    have c4: "CGI # CGIs \<noteq> [] \<longrightarrow> k + length (CGI # CGIs) \<le> length (InstIdx E)"
      using i4 k st(3) by (cases CGIs) simp_all
    have "SemaTarget E' =
           internAll (concat (map (?lit (InstIdx E)) (zip [Suc k..<Suc k + length CGIs] CGIs)))
             (internAll (patternLiterals CGI TP) (SemaTarget E))"
      using i6 by (simp only: same t1 t')
    then have tgt: "SemaTarget E' =
           internAll (concat (map (?lit (InstIdx E)) (zip [k..<k + length (CGI # CGIs)] (CGI # CGIs))))
             (SemaTarget E)"
      unfolding range using lit by (simp add: internAll_append)
    show ?thesis
      using i1 c2 c3 c4 idx tgt by (intro conjI allI)
  qed
qed

lemma zip_upt_nth: "zip [0..<length xs] xs = map (\<lambda>i. (i, xs ! i)) [0..<length xs]"
  by (rule nth_equalityI) simp_all

lemma newSemanticsEmitter_installed:
  assumes new: "newSemanticsEmitter T TD = Inr E"
    and count: "length (SemanticsRecords TD) + length (InstructionsByEnumValue TD) < 2 ^ 32 - 1"
  shows "length (InstIdx E) = length (InstructionsByEnumValue TD)"
    and "0 < length (InstructionsByEnumValue TD)"
    and "\<forall>i < length (InstIdx E). InstIdx E ! i \<noteq> 0 \<longleftrightarrow> hasSemantics TD i"
    and "installed (flattenedFor TD) E"
    and "SemaTarget E = internAll (sessionLiterals TD) T"
proof -
  let ?CGIs = "InstructionsByEnumValue TD"
  let ?Recs = "SemanticsRecords TD"
  let ?n = "length ?CGIs"
  let ?E0 = "\<lparr>InstSemas = [], InstIdx = replicate ?n 0, SemaTarget = T, Diagnostics = []\<rparr>"
  from new obtain E1 E2 where steps:
    "addInstSemantics 0 InstSemantics_default ?E0 = Inr E1"
    "ParseSemantics ?CGIs ?Recs E1 = Inr E2"
    "usePatterns TD ?CGIs 0 E2 = Inr E"
    by (auto simp: newSemanticsEmitter_def Let_def split: sum.splits)
  note a = addInstSemantics_Inr [OF steps(1)]
  show n: "0 < ?n" using a(1) by simp
  have semas1: "InstSemas E1 = [InstSemantics_default]" using a(2) by simp
  have "InstIdx E1 = (replicate ?n (0 :: 32 word))[0 := 0]" using a(3) by simp
  also have "\<dots> = replicate ?n 0"
    by (cases ?n) simp_all
  finally have idx1: "InstIdx E1 = replicate ?n 0" .
  have t1: "SemaTarget E1 = T" using a(4) by simp
  have inst1: "installed (flattenedFor TD) E1"
    by (simp add: installed_def semas1 idx1)
  have b1: "length (InstSemas E1) + length ?Recs < 2 ^ 32"
    using count by (simp add: semas1)
  have q1: "\<forall>InstDef TP i T D Sema T' D'.
           (InstDef, Some TP) \<in> set ?Recs \<and> find_index_of InstDef ?CGIs = Some i \<and>
           InstSemantics_pattern T D (?CGIs ! i) TP = Inr (Sema, T', D') \<longrightarrow> flattenedFor TD i Sema"
    unfolding flattenedFor_def by blast
  note P = ParseSemantics_installed [OF steps(2) inst1 b1 q1]
  have p1: "installed (flattenedFor TD) E2"
    and p2: "length (InstSemas E2) = length (InstSemas E1) + length ?Recs"
    and p3: "length (InstIdx E2) = length (InstIdx E1)"
    and p4: "\<forall>i. InstIdx E2 ! i \<noteq> 0 \<longleftrightarrow>
               InstIdx E1 ! i \<noteq> 0 \<or>
               (\<exists>(InstDef, Pat) \<in> set ?Recs. find_index_of InstDef ?CGIs = Some i)"
    using P by blast+
  have named: "InstIdx E2 ! i \<noteq> 0 \<longleftrightarrow> namedBySemantics TD i" if "i < ?n" for i
    using p4 that by (simp add: idx1 namedBySemantics_def)
  have t2: "SemaTarget E2 = internAll (recordLiterals ?CGIs ?Recs) T"
    using ParseSemantics_literals [OF steps(2)] by (simp add: t1)
  have b2: "length (InstSemas E2) + length ?CGIs < 2 ^ 32"
    using count by (simp add: p2 semas1)
  have q2: "\<forall>j TP T D Sema T' D'.
           j < length ?CGIs \<and> getInstructionPattern TD (TheDef (?CGIs ! j)) = Some TP \<and>
           InstSemantics_pattern T D (?CGIs ! j) TP = Inr (Sema, T', D') \<longrightarrow>
           flattenedFor TD (0 + j) Sema"
    unfolding flattenedFor_def by (simp del: ex_simps) blast
  let ?lit = "\<lambda>(i, CGI).
                        if InstIdx E2 ! i \<noteq> 0 then []
                        else case getInstructionPattern TD (TheDef CGI) of
                               None \<Rightarrow> []
                             | Some TP \<Rightarrow> if isCodeGenOnly CGI then [] else patternLiterals CGI TP"
  note U = usePatterns_installed [OF steps(3) p1 b2 q2]
  have u1: "installed (flattenedFor TD) E"
    and u3: "length (InstIdx E) = length (InstIdx E2)"
    and u5: "\<forall>i. InstIdx E ! i \<noteq> 0 \<longleftrightarrow>
               InstIdx E2 ! i \<noteq> 0 \<or>
               (0 \<le> i \<and> i < 0 + length ?CGIs \<and>
                getInstructionPattern TD (TheDef (?CGIs ! (i - 0))) \<noteq> None \<and>
                \<not> isCodeGenOnly (?CGIs ! (i - 0)))"
    and u6: "SemaTarget E = internAll (concat (map ?lit (zip [0..<0 + length ?CGIs] ?CGIs))) (SemaTarget E2)"
    using U by blast+
  show "installed (flattenedFor TD) E" by (rule u1)
  show len: "length (InstIdx E) = ?n"
    by (simp add: u3 p3 idx1)
  show "\<forall>i < length (InstIdx E). InstIdx E ! i \<noteq> 0 \<longleftrightarrow> hasSemantics TD i"
  proof (intro allI impI)
    fix i assume "i < length (InstIdx E)"
    then have i: "i < ?n" by (simp add: len)
    have "InstIdx E ! i \<noteq> 0 \<longleftrightarrow>
            namedBySemantics TD i \<or>
            (getInstructionPattern TD (TheDef (?CGIs ! i)) \<noteq> None \<and> \<not> isCodeGenOnly (?CGIs ! i))"
      using u5 named [OF i] i by auto
    also have "\<dots> \<longleftrightarrow> hasSemantics TD i"
      by (auto simp: hasSemantics_def usedPattern_def split: option.splits)
    finally show "InstIdx E ! i \<noteq> 0 \<longleftrightarrow> hasSemantics TD i" .
  qed
  have "map ?lit (zip [0..<?n] ?CGIs) =
        map (\<lambda>i. case usedPattern TD i of
                         None \<Rightarrow> []
                       | Some TP \<Rightarrow> patternLiterals (?CGIs ! i) TP) [0..<?n]"
    unfolding zip_upt_nth map_map
  proof (rule map_cong [OF refl])
    fix i assume "i \<in> set [0..<?n]"
    then have i: "i < ?n" by simp
    show "(?lit \<circ> (\<lambda>i. (i, ?CGIs ! i))) i =
          (case usedPattern TD i of None \<Rightarrow> [] | Some TP \<Rightarrow> patternLiterals (?CGIs ! i) TP)"
      using named [OF i] by (auto simp: usedPattern_def split: option.splits)
  qed
  then have "concat (map ?lit (zip [0..<0 + ?n] ?CGIs)) =
        concat (map (\<lambda>i. case usedPattern TD i of
                         None \<Rightarrow> []
                       | Some TP \<Rightarrow> patternLiterals (?CGIs ! i) TP) [0..<?n])"
    by simp
  then show "SemaTarget E = internAll (sessionLiterals TD) T"
    using u6 t2 by (simp add: sessionLiterals_def internAll_append)
qed

lemma printInstSemantics_total:
  "\<forall>Idx \<in> set Idxs. Idx \<noteq> 0 \<longrightarrow> unat Idx < length Semas \<Longrightarrow>
   \<exists>Out Idxs'. printInstSemantics Semas Idxs Cur = Inr (Out, Idxs')"
proof (induction Idxs arbitrary: Cur)
  case Nil
  then show ?case by simp
next
  case (Cons Idx Idxs)
  have rest: "\<exists>Out Idxs'. printInstSemantics Semas Idxs C = Inr (Out, Idxs')" for C
    using Cons by simp
  show ?case
  proof (cases "Idx = 0")
    case True
    obtain Out Idxs' where "printInstSemantics Semas Idxs Cur = Inr (Out, Idxs')"
      using rest by blast
    then show ?thesis using True by simp
  next
    case False
    then have inr: "unat Idx < length Semas" using Cons.prems by simp
    obtain Block Cur' where b: "printSemantics (Semas ! unat Idx) (Cur + 1) = (Block, Cur')"
      by (cases "printSemantics (Semas ! unat Idx) (Cur + 1)")
    obtain Out Idxs' where "printInstSemantics Semas Idxs Cur' = Inr (Out, Idxs')"
      using rest by blast
    then show ?thesis using False inr b by simp
  qed
qed

lemma installed_printInstSemantics:
  assumes "installed Q E"
  shows "\<exists>Out Idxs'. printInstSemantics (InstSemas E) (InstIdx E) Cur = Inr (Out, Idxs')"
proof (rule printInstSemantics_total, intro ballI impI)
  fix Idx assume "Idx \<in> set (InstIdx E)" "Idx \<noteq> 0"
  then obtain i where "i < length (InstIdx E)" "InstIdx E ! i = Idx"
    by (auto simp: in_set_conv_nth)
  then show "unat Idx < length (InstSemas E)"
    using assms \<open>Idx \<noteq> 0\<close> by (auto simp: installed_def)
qed

section \<open>Named operands\<close>

text \<open>
  Claim C1, as stated, fails: the table of operands by name is consulted only for an
  operand that becomes a \<^verbatim>\<open>DCINS::CUSTOM_OP\<close>. In the pattern
  \<open>(set GPR:$dst, (add GPR:$a, GPR:$a))\<close> the operand \<open>$a\<close>, a register class, is
  referenced twice and two \<^verbatim>\<open>DCINS::GET_RC\<close> nodes are emitted for it.
\<close>

theorem C1_counterexample:
  "map_sum id Semantics (flattenTree ADD32rr S3 (newFlattener X86Target [])) =
     Inr [\<lparr>Opcode = ''DCINS::GET_RC'', Types = [VT ''i32''], Operands = [''1'']\<rparr>,
          \<lparr>Opcode = ''DCINS::GET_RC'', Types = [VT ''i32''], Operands = [''1'']\<rparr>,
          \<lparr>Opcode = ''ISD::ADD'', Types = [VT ''i32''], Operands = [''0'', ''1'']\<rparr>,
          \<lparr>Opcode = ''DCINS::PUT_RC'', Types = [isVoid], Operands = [''0'', ''2'']\<rparr>]"
  by code_simp


text \<open>
  Claim C1, amended. Let the record of a named operand, after a RegisterOperand is
  replaced by its register class, be \<open>OpRec\<close>. If it is an Operand whose type is not
  \<^verbatim>\<open>OPERAND_IMMEDIATE\<close>, the first reference (the name is not in the table) emits
  the \<^verbatim>\<open>DCINS::CUSTOM_OP\<close> node through \<^verbatim>\<open>addResOperand\<close> and records for the
  name the DefNo the counter holds before the node is appended; every later reference
  (the name is in the table, with \<open>D\<close>) appends only the token of \<open>D\<close> to its parent
  and changes nothing else. An \<^verbatim>\<open>OPERAND_IMMEDIATE\<close> operand
  (\<^verbatim>\<open>DCINS::CONSTANT_OP\<close>) and a register class (\<^verbatim>\<open>DCINS::GET_RC\<close>) emit a node
  at every reference, whatever the table holds. Flattening a tree never changes or
  removes an entry of the table.
\<close>

theorem C1_flattenOperand_dedup:
  assumes "normalizeRegisterOperand (Rec OpInfo) = Inr OpRec"
  shows
    "(isSubClassOf OpRec ''Operand'' \<and> OperandType OpInfo \<noteq> ''OPERAND_IMMEDIATE'' \<longrightarrow>
        (OperandByName F (Name OpInfo) = None \<longrightarrow>
           flattenOperand CGI TPN (Some P) OpInfo F =
             (case addResOperand P
                     \<lparr>Opcode = ''DCINS::CUSTOM_OP'',
                      Types = (if getExtTypes TPN = [] then [isVoid] else getExtTypes TPN),
                      Operands = [Namespace CGI @ ''::OpTypes::'' @ getName OpRec,
                                  utostr (unat (MIOperandNo OpInfo))]\<rparr>
                     (F\<lparr>OperandByName := (OperandByName F)(Name OpInfo \<mapsto> CurDefNo F)\<rparr>) of
                (P', F') \<Rightarrow> Inr (Some P', F'))) \<and>
        (\<forall>D. OperandByName F (Name OpInfo) = Some D \<longrightarrow>
           flattenOperand CGI TPN (Some P) OpInfo F =
             Inr (Some (addOperand (utostr (unat D)) P), F))) \<and>
     (isSubClassOf OpRec ''Operand'' \<and> OperandType OpInfo = ''OPERAND_IMMEDIATE'' \<longrightarrow>
        flattenOperand CGI TPN (Some P) OpInfo F =
          (case addResOperand P
                  \<lparr>Opcode = ''DCINS::CONSTANT_OP'',
                   Types = (if getExtTypes TPN = [] then [isVoid] else getExtTypes TPN),
                   Operands = [utostr (unat (MIOperandNo OpInfo))]\<rparr> F of
             (P', F') \<Rightarrow> Inr (Some P', F'))) \<and>
     (\<not> isSubClassOf OpRec ''Operand'' \<and> isSubClassOf OpRec ''RegisterClass'' \<longrightarrow>
        flattenOperand CGI TPN (Some P) OpInfo F =
          (case addResOperand P
                  \<lparr>Opcode = ''DCINS::GET_RC'',
                   Types = (if getExtTypes TPN = [] then [isVoid] else getExtTypes TPN),
                   Operands = [utostr (unat (MIOperandNo OpInfo))]\<rparr> F of
             (P', F') \<Rightarrow> Inr (Some P', F'))) \<and>
     (\<forall>Tree Parent P' F' N D.
        flatten CGI Tree Parent F = Inr (P', F') \<and> OperandByName F N = Some D \<longrightarrow>
        OperandByName F' N = Some D)"
proof -
  have persist: "OperandByName F' N = Some D"
    if "flatten CGI Tree Parent F = Inr (P', F')" "OperandByName F N = Some D"
    for Tree Parent P' F' N D
    using flatten_OperandByName_le [OF that(1)] that(2)
    by (auto simp: map_le_def dom_def)
  show ?thesis
    using assms persist
    by (auto simp: flattenOperand_def addResOperand_Parent_def setNSTypeFromNode_def
        getNumTypes_def addOperand_def emptyNS_def Let_def split: prod.splits)
qed

theorem C1_witness:
  "flattenOperand ADD32rr (Leaf ''addr'' [i32] (DefInit i32mem)) (Some emptyNS)
     \<lparr>Name = ''addr'', MIOperandNo = 3, OperandType = ''OPERAND_MEMORY'', Rec = i32mem\<rparr>
     (newFlattener PlainTarget []) =
   Inr (Some (addOperand ''0'' emptyNS),
        (newFlattener PlainTarget [])
          \<lparr>Semantics := [\<lparr>Opcode = ''DCINS::CUSTOM_OP'', Types = [i32],
                           Operands = [''X86::OpTypes::i32mem'', ''3'']\<rparr>],
           OperandByName := [''addr'' \<mapsto> 0], CurDefNo := 1\<rparr>) \<and>
   flattenOperand ADD32rr (Leaf ''addr'' [i32] (DefInit i32mem)) (Some emptyNS)
     \<lparr>Name = ''addr'', MIOperandNo = 3, OperandType = ''OPERAND_MEMORY'', Rec = i32mem\<rparr>
     ((newFlattener PlainTarget [])\<lparr>OperandByName := [''addr'' \<mapsto> 0]\<rparr>) =
   Inr (Some (addOperand ''0'' emptyNS),
        (newFlattener PlainTarget [])\<lparr>OperandByName := [''addr'' \<mapsto> 0]\<rparr>)"
proof -
  let ?OI = "\<lparr>Name = ''addr'', MIOperandNo = 3, OperandType = ''OPERAND_MEMORY'', Rec = i32mem\<rparr>"
  let ?New = "newFlattener PlainTarget []"
  let ?F = "(newFlattener PlainTarget [])\<lparr>OperandByName := [''addr'' \<mapsto> 0]\<rparr>"
  have norm: "normalizeRegisterOperand (Rec ?OI) = Inr i32mem"
    by (simp add: normalizeRegisterOperand_def isSubClassOf_def i32mem_def)
  have cls: "isSubClassOf i32mem ''Operand''" "OperandType ?OI \<noteq> ''OPERAND_IMMEDIATE''"
    by (simp_all add: isSubClassOf_def i32mem_def)
  have new: "OperandByName ?New (Name ?OI) = None"
    by (simp add: newFlattener_def)
  have tab: "OperandByName ?F (Name ?OI) = Some 0"
    by (simp add: newFlattener_def)
  have three: "unat (MIOperandNo ?OI) = 3"
    by simp
  from C1_flattenOperand_dedup [OF norm, of ?New ADD32rr "Leaf ''addr'' [i32] (DefInit i32mem)" emptyNS]
    cls new
  have "flattenOperand ADD32rr (Leaf ''addr'' [i32] (DefInit i32mem)) (Some emptyNS) ?OI ?New =
        (case addResOperand emptyNS
                \<lparr>Opcode = ''DCINS::CUSTOM_OP'',
                 Types = (if getExtTypes (Leaf ''addr'' [i32] (DefInit i32mem)) = [] then [isVoid]
                          else getExtTypes (Leaf ''addr'' [i32] (DefInit i32mem))),
                 Operands = [Namespace ADD32rr @ ''::OpTypes::'' @ getName i32mem,
                             utostr (unat (MIOperandNo ?OI))]\<rparr>
                (?New\<lparr>OperandByName := (OperandByName ?New)(Name ?OI \<mapsto> CurDefNo ?New)\<rparr>) of
           (P', F') \<Rightarrow> Inr (Some P', F'))"
    by blast
  then have first: "flattenOperand ADD32rr (Leaf ''addr'' [i32] (DefInit i32mem)) (Some emptyNS) ?OI ?New =
      Inr (Some (addOperand ''0'' emptyNS),
        ?New\<lparr>Semantics := [\<lparr>Opcode = ''DCINS::CUSTOM_OP'', Types = [i32],
                           Operands = [''X86::OpTypes::i32mem'', ''3'']\<rparr>],
           OperandByName := [''addr'' \<mapsto> 0], CurDefNo := 1\<rparr>)"
    unfolding three
    by (simp add: addResOperand_def addSemantics_def newFlattener_def ADD32rr_def i32mem_def
        i32_def utostr_small utostr_def [of 3] utostr_loop.simps)
  from C1_flattenOperand_dedup [OF norm, of ?F ADD32rr "Leaf ''addr'' [i32] (DefInit i32mem)" emptyNS]
    cls tab
  have "flattenOperand ADD32rr (Leaf ''addr'' [i32] (DefInit i32mem)) (Some emptyNS) ?OI ?F =
        Inr (Some (addOperand (utostr (unat (0 :: 32 word))) emptyNS), ?F)"
    by blast
  then have later: "flattenOperand ADD32rr (Leaf ''addr'' [i32] (DefInit i32mem)) (Some emptyNS) ?OI ?F =
        Inr (Some (addOperand ''0'' emptyNS), ?F)"
    by (simp add: utostr_small)
  show ?thesis
    using first later by (intro conjI)
qed

section \<open>Properties of flattenSet\<close>


text \<open>
  Claim C3. For a set node with at least one child whose number of children minus one
  differs from the number of types of its last child, \<^verbatim>\<open>flattenSet\<close> writes its
  diagnostic to the error stream and returns; nothing else of the flattener changes, so
  no node is appended for this set. When the set is the root of a tree, the public
  flatten only adds the implicit nodes of registers eliminated before, and an
  instruction whose pattern is this one tree gets empty semantics. The constructor of
  the emitter then installs these semantics and goes on with the next instruction.
\<close>

theorem C3_flattenSet_arity_mismatch:
  assumes "Cs \<noteq> []" and "length Cs - 1 \<noteq> getNumTypes (last Cs)"
  shows "flattenSet CGI TPN Cs F =
           Inr (F\<lparr>errs := errs F @
                  [FlattenDiag (length Cs - 1) TPN (getNumTypes (last Cs)) (last Cs)]\<rparr>) \<and>
         (getNamedOperand CGI N = None \<and> getName Operator = ''set'' \<longrightarrow>
            flattenTree CGI (Node N Ts Operator Cs) F =
              Inr (F\<lparr>errs := errs F @
                     [FlattenDiag (length Cs - 1) (Node N Ts Operator Cs)
                        (getNumTypes (last Cs)) (last Cs)],
                    Semantics := fold (\<lambda>IR Sem. Sem @
                        [\<lparr>Opcode = ''DCINS::IMPLICIT'', Types = [isVoid],
                          Operands = [Namespace CGI @ ''::'' @ getName IR]\<rparr>])
                      (EliminatedImplicitRegs F) (Semantics F)\<rparr>) \<and>
            InstSemantics_pattern T E CGI [Node N Ts Operator Cs] =
              Inr ([], T, E @ [FlattenDiag (length Cs - 1) (Node N Ts Operator Cs)
                                 (getNumTypes (last Cs)) (last Cs)]) \<and>
            (i < length (InstIdx Em) \<and> InstIdx Em ! i = 0 \<and>
             getInstructionPattern TD (TheDef CGI) = Some [Node N Ts Operator Cs] \<and>
             \<not> isCodeGenOnly CGI \<longrightarrow>
               usePatterns TD (CGI # CGIs) i Em =
                 usePatterns TD CGIs (Suc i)
                   (Em\<lparr>Diagnostics := Diagnostics Em @
                         [FlattenDiag (length Cs - 1) (Node N Ts Operator Cs)
                            (getNumTypes (last Cs)) (last Cs)],
                       InstIdx := (InstIdx Em)[i := of_nat (length (InstSemas Em))],
                       InstSemas := InstSemas Em @ [[]]\<rparr>)))"
proof -
  have set: "flattenSet CGI TPN' Cs F' =
           Inr (F'\<lparr>errs := errs F' @
                  [FlattenDiag (length Cs - 1) TPN' (getNumTypes (last Cs)) (last Cs)]\<rparr>)"
    for TPN' F'
    using assms by (simp add: flattenSet.simps Let_def)
  have tree: "flattenTree CGI (Node N Ts Operator Cs) F' =
              Inr (F'\<lparr>errs := errs F' @
                     [FlattenDiag (length Cs - 1) (Node N Ts Operator Cs)
                        (getNumTypes (last Cs)) (last Cs)],
                    Semantics := fold (\<lambda>IR Sem. Sem @
                        [\<lparr>Opcode = ''DCINS::IMPLICIT'', Types = [isVoid],
                          Operands = [Namespace CGI @ ''::'' @ getName IR]\<rparr>])
                      (EliminatedImplicitRegs F') (Semantics F')\<rparr>)"
    if "getNamedOperand CGI N = None" "getName Operator = ''set''" for F'
    using that
    by (simp add: flattenTree_def flatten.simps set Let_def addOperand_def emptyNS_def)
  have pat: "InstSemantics_pattern T' E' CGI [Node N Ts Operator Cs] =
              Inr ([], T', E' @ [FlattenDiag (length Cs - 1) (Node N Ts Operator Cs)
                                 (getNumTypes (last Cs)) (last Cs)])"
    if "getNamedOperand CGI N = None" "getName Operator = ''set''" for T' E'
    using that by (simp add: InstSemantics_pattern_def tree newFlattener_def)
  have cont: "usePatterns TD (CGI # CGIs) i Em =
                 usePatterns TD CGIs (Suc i)
                   (Em\<lparr>Diagnostics := Diagnostics Em @
                         [FlattenDiag (length Cs - 1) (Node N Ts Operator Cs)
                            (getNumTypes (last Cs)) (last Cs)],
                       InstIdx := (InstIdx Em)[i := of_nat (length (InstSemas Em))],
                       InstSemas := InstSemas Em @ [[]]\<rparr>)"
    if "getNamedOperand CGI N = None" "getName Operator = ''set''"
      "i < length (InstIdx Em)" "InstIdx Em ! i = 0"
      "getInstructionPattern TD (TheDef CGI) = Some [Node N Ts Operator Cs]"
      "\<not> isCodeGenOnly CGI"
    using that by (simp add: pat addInstSemantics_def)
  show ?thesis
    using set tree pat cont by blast
qed

theorem C3_witness:
  "flattenSet ADD32rr BadArity (getChildren BadArity) (newFlattener PlainTarget []) =
     Inr ((newFlattener PlainTarget [])
            \<lparr>errs := [FlattenDiag 2 BadArity 1 (last (getChildren BadArity))]\<rparr>) \<and>
   InstSemantics_pattern PlainTarget [] ADD32rr [BadArity] =
     Inr ([], PlainTarget, [FlattenDiag 2 BadArity 1 (last (getChildren BadArity))]) \<and>
   usePatterns X86Description [ADC32rr] 3
     \<lparr>InstSemas = [InstSemantics_default], InstIdx = [0, 0, 0, 0],
      SemaTarget = PlainTarget, Diagnostics = []\<rparr> =
     Inr \<lparr>InstSemas = [InstSemantics_default, []], InstIdx = [0, 0, 0, 1],
          SemaTarget = PlainTarget,
          Diagnostics = [FlattenDiag 2 BadArity 1 (last (getChildren BadArity))]\<rparr>"
proof -
  let ?Em = "\<lparr>InstSemas = [InstSemantics_default], InstIdx = [0, 0, 0, 0],
      SemaTarget = PlainTarget, Diagnostics = []\<rparr>"
  have ne: "getChildren BadArity \<noteq> []"
    by (simp add: BadArity_def)
  have ar: "length (getChildren BadArity) - 1 \<noteq> getNumTypes (last (getChildren BadArity))"
    by (simp add: BadArity_def getNumTypes_def)
  have nm: "getNamedOperand ADD32rr [] = None" "getNamedOperand ADC32rr [] = None"
    by (simp_all add: getNamedOperand_def)
  have op: "getName set_op = ''set''"
    by (simp add: set_op_def)
  have node: "BadArity = Node [] [] set_op (getChildren BadArity)"
    by (simp add: BadArity_def)
  have len: "length (getChildren BadArity) - 1 = 2" "getNumTypes (last (getChildren BadArity)) = 1"
    by (simp_all add: BadArity_def getNumTypes_def)
  have inst: "(3 :: nat) < length (InstIdx ?Em)" "InstIdx ?Em ! 3 = 0"
    "\<not> isCodeGenOnly ADC32rr"
    by (simp_all add: ADC32rr_def ADD32rr_def)
  have pat: "getInstructionPattern X86Description (TheDef ADC32rr) =
      Some [Node [] [] set_op (getChildren BadArity)]"
    by (simp add: node [symmetric] X86Description_def)
  note main = C3_flattenSet_arity_mismatch [OF ne ar, where CGI = ADD32rr and TPN = BadArity
      and F = "newFlattener PlainTarget []" and N = "[]" and Operator = set_op and Ts = "[]"
      and T = PlainTarget and E = "[]"]
  note cont = C3_flattenSet_arity_mismatch [OF ne ar, where CGI = ADC32rr
      and N = "[]" and Operator = set_op and Ts = "[]"
      and Em = ?Em and i = 3 and TD = X86Description and CGIs = "[]"]
  from main have "flattenSet ADD32rr BadArity (getChildren BadArity) (newFlattener PlainTarget []) =
     Inr ((newFlattener PlainTarget [])
            \<lparr>errs := errs (newFlattener PlainTarget []) @
               [FlattenDiag (length (getChildren BadArity) - 1) BadArity
                  (getNumTypes (last (getChildren BadArity))) (last (getChildren BadArity))]\<rparr>)"
    by blast
  moreover from main nm op have "InstSemantics_pattern PlainTarget [] ADD32rr
       [Node [] [] set_op (getChildren BadArity)] =
     Inr ([], PlainTarget, [] @ [FlattenDiag (length (getChildren BadArity) - 1)
        (Node [] [] set_op (getChildren BadArity))
        (getNumTypes (last (getChildren BadArity))) (last (getChildren BadArity))])"
    by blast
  moreover from cont nm op inst pat have "usePatterns X86Description [ADC32rr] 3 ?Em =
      usePatterns X86Description [] (Suc 3)
        (?Em\<lparr>Diagnostics := Diagnostics ?Em @
             [FlattenDiag (length (getChildren BadArity) - 1)
                (Node [] [] set_op (getChildren BadArity))
                (getNumTypes (last (getChildren BadArity))) (last (getChildren BadArity))],
           InstIdx := (InstIdx ?Em)[3 := of_nat (length (InstSemas ?Em))],
           InstSemas := InstSemas ?Em @ [[]]\<rparr>)"
    by blast
  ultimately show ?thesis
    unfolding node [symmetric] len by (simp add: newFlattener_def)
qed

text \<open>
  Claim C10. In the first loop of \<^verbatim>\<open>flattenSet\<close>, when the destination \<open>i\<close> is a
  leaf whose record, after a RegisterOperand is replaced by its register class, is
  neither a RegisterClass nor a Register, the iteration does not fail and writes no
  diagnostic: it appends a node with the single type void, the empty opcode and the one
  operand \<^verbatim>\<open>FirstDefNo + i\<close>, and the loop goes on with the remaining destinations.
\<close>

theorem C10_flattenSet_unknown_destination:
  assumes "i < length Cs"
    and "getLeafValue (Cs ! i) = Inr (DefInit OpRec0)"
    and "normalizeRegisterOperand OpRec0 = Inr OpRec"
    and "\<not> isSubClassOf OpRec ''RegisterClass''"
    and "\<not> isSubClassOf OpRec ''Register''"
  shows "flattenSet_puts CGI Cs FirstDefNo (i # Is) F =
         flattenSet_puts CGI Cs FirstDefNo Is
           (F\<lparr>Semantics := Semantics F @
                [\<lparr>Opcode = [], Types = [isVoid],
                  Operands = [utostr (unat (FirstDefNo + of_nat i))]\<rparr>]\<rparr>)"
proof -
  have "flattenSet_put CGI (Cs ! i) (FirstDefNo + of_nat i) F =
        Inr (F\<lparr>Semantics := Semantics F @
                [\<lparr>Opcode = [], Types = [isVoid],
                  Operands = [utostr (unat (FirstDefNo + of_nat i))]\<rparr>]\<rparr>)"
    using assms(2-5)
    by (simp add: flattenSet_put_def addSemantics_def addOperand_def emptyNS_def)
  then show ?thesis
    using assms(1) by simp
qed


theorem C10_witness:
  "flattenSet_puts ADD32rr (getChildren SetImm) 2 [0] (newFlattener PlainTarget []) =
     Inr ((newFlattener PlainTarget [])
            \<lparr>Semantics := [\<lparr>Opcode = [], Types = [isVoid], Operands = [''2'']\<rparr>]\<rparr>) \<and>
   map_sum id Semantics (flattenTree ADD32rr SetImm (newFlattener PlainTarget [])) =
     Inr [\<lparr>Opcode = ''DCINS::GET_RC'', Types = [VT ''i32''], Operands = [''1'']\<rparr>,
          \<lparr>Opcode = ''DCINS::GET_RC'', Types = [VT ''i32''], Operands = [''2'']\<rparr>,
          \<lparr>Opcode = ''ISD::ADD'', Types = [VT ''i32''], Operands = [''0'', ''1'']\<rparr>,
          \<lparr>Opcode = [], Types = [isVoid], Operands = [''2'']\<rparr>] \<and>
   map_sum id errs (flattenTree ADD32rr SetImm (newFlattener PlainTarget [])) = Inr []"
proof -
  have loop: "flattenSet_puts ADD32rr (getChildren SetImm) 2 [0] (newFlattener PlainTarget []) =
     Inr ((newFlattener PlainTarget [])
            \<lparr>Semantics := [\<lparr>Opcode = [], Types = [isVoid], Operands = [''2'']\<rparr>]\<rparr>)"
    using C10_flattenSet_unknown_destination
      [of 0 "getChildren SetImm" i32imm i32imm ADD32rr 2 "[]" "newFlattener PlainTarget []"]
    by (simp add: SetImm_def i32imm_def normalizeRegisterOperand_def isSubClassOf_def
        newFlattener_def utostr_small)
  have tree: "map_sum id Semantics (flattenTree ADD32rr SetImm (newFlattener PlainTarget [])) =
     Inr [\<lparr>Opcode = ''DCINS::GET_RC'', Types = [VT ''i32''], Operands = [''1'']\<rparr>,
          \<lparr>Opcode = ''DCINS::GET_RC'', Types = [VT ''i32''], Operands = [''2'']\<rparr>,
          \<lparr>Opcode = ''ISD::ADD'', Types = [VT ''i32''], Operands = [''0'', ''1'']\<rparr>,
          \<lparr>Opcode = [], Types = [isVoid], Operands = [''2'']\<rparr>]"
    by code_simp
  have quiet: "map_sum id errs (flattenTree ADD32rr SetImm (newFlattener PlainTarget [])) = Inr []"
    by code_simp
  show ?thesis
    using loop tree quiet by (intro conjI)
qed

section \<open>Node equivalences\<close>

lemma pop_back_n_take:
  "pop_back_n n Ts = Inr Ts' \<Longrightarrow> n \<le> length Ts \<and> Ts' = take (length Ts - n) Ts"
proof (induction n arbitrary: Ts)
  case 0
  then show ?case by simp
next
  case (Suc n)
  then have ne: "Ts \<noteq> []" and rest: "pop_back_n n (butlast Ts) = Inr Ts'"
    by (auto split: if_splits)
  from Suc.IH [OF rest] have le: "n \<le> length Ts - 1"
    and eq: "Ts' = take (length Ts - 1 - n) (butlast Ts)"
    by simp_all
  have pos: "0 < length Ts" using ne by simp
  have "Suc n \<le> length Ts"
    using le pos by arith
  moreover have "take (length Ts - 1 - n) (butlast Ts) = take (length Ts - Suc n) Ts"
    by (simp add: butlast_conv_take min_def)
  ultimately show ?case
    using eq by simp
qed

lemma addResOperand_shape:
  "addResOperand P Prev F = (P', F') \<Longrightarrow> Opcode P' = Opcode P \<and> Types P' = Types P"
proof -
  have "Opcode (fold (\<lambda>i N. if g i then addOperand (f i) N else N) Is N0) = Opcode N0 \<and>
        Types (fold (\<lambda>i N. if g i then addOperand (f i) N else N) Is N0) = Types N0"
    for g :: "nat \<Rightarrow> bool" and f Is N0
    by (induction Is arbitrary: N0) (simp_all add: addOperand_def)
  then show "addResOperand P Prev F = (P', F') \<Longrightarrow> Opcode P' = Opcode P \<and> Types P' = Types P"
    by (auto simp: addResOperand_def Let_def)
qed

lemma addResOperand_Parent_shape:
  "addResOperand_Parent (Some P) Prev F = Inr (P', F') \<Longrightarrow>
   \<exists>P''. P' = Some P'' \<and> Opcode P'' = Opcode P \<and> Types P'' = Types P"
  by (auto simp: addResOperand_Parent_def split: prod.splits dest: addResOperand_shape)

lemma flatten_parent_shape:
  assumes "flatten CGI TPN (Some P) F = Inr (P', F')"
  shows "\<exists>P''. P' = Some P'' \<and> Opcode P'' = Opcode P \<and> Types P'' = Types P"
proof (cases "getNamedOperand CGI (getNodeName TPN)")
  case (Some OpInfo)
  then have "flattenOperand CGI TPN (Some P) OpInfo F = Inr (P', F')"
    using assms by (simp add: flatten.simps)
  then show ?thesis
    by (auto simp: flattenOperand_def Let_def addOperand_def
        split: sum.splits if_splits option.splits dest: addResOperand_Parent_shape)
next
  case None
  show ?thesis
  proof (cases TPN)
    case (Leaf N Ts V)
    then have "flattenLeaf CGI TPN (Some P) F = Inr (P', F')"
      using assms None by (simp add: flatten.simps)
    then show ?thesis
      by (auto simp: flattenLeaf_def Let_def Leaf
          split: Init.splits if_splits prod.splits dest: addResOperand_Parent_shape)
  next
    case (Node N Ts Operator Cs)
    then show ?thesis
      using assms None
      by (auto simp: flatten.simps Let_def
          split: if_splits sum.splits prod.splits dest: addResOperand_shape)
  qed
qed

lemma flattenSDNode_children_shape:
  "flattenSDNode_children CGI Cs NS F = Inr (NS', F') \<Longrightarrow>
   Opcode NS' = Opcode NS \<and> Types NS' = Types NS"
proof (induction Cs arbitrary: NS F)
  case Nil
  then show ?case by simp
next
  case (Cons C Cs)
  from Cons.prems obtain P F0 where steps:
    "flatten CGI C (Some NS) F = Inr (P, F0)"
    "flattenSDNode_children CGI Cs (case P of None \<Rightarrow> NS | Some NS' \<Rightarrow> NS') F0 = Inr (NS', F')"
    by (auto split: sum.splits)
  from flatten_parent_shape [OF steps(1)] obtain P1 where
    "P = Some P1" "Opcode P1 = Opcode NS" "Types P1 = Types NS"
    by blast
  then show ?case
    using Cons.IH [OF steps(2)] by simp
qed

lemma flattenSet_drops_registers:
  "flattenSet_drops Cs Is F = Inr F' \<Longrightarrow>
   set (EliminatedImplicitRegs F) \<subseteq> set (EliminatedImplicitRegs F') \<and>
   (\<forall>i \<in> set Is. i < length Cs \<and>
      (\<exists>N Ts R. Cs ! i = Leaf N Ts (DefInit R) \<and> isSubClassOf R ''Register'' \<and>
                 R \<in> set (EliminatedImplicitRegs F')))"
proof (induction Is arbitrary: F)
  case Nil
  then show ?case by simp
next
  case (Cons i Is)
  from Cons.prems obtain F0 where steps: "i < length Cs"
    "flattenSet_drop (Cs ! i) F = Inr F0" "flattenSet_drops Cs Is F0 = Inr F'"
    by (auto split: if_splits sum.splits)
  from steps(2) obtain N Ts R where leaf: "Cs ! i = Leaf N Ts (DefInit R)"
    "isSubClassOf R ''Register''"
    "EliminatedImplicitRegs F0 = insertImplicitReg R (EliminatedImplicitRegs F)"
    by (auto simp: flattenSet_drop_def
        split: TreePatternNode.splits Init.splits if_splits)
  have "R \<in> set (EliminatedImplicitRegs F0)"
    "set (EliminatedImplicitRegs F) \<subseteq> set (EliminatedImplicitRegs F0)"
    by (auto simp: leaf(3) insertImplicitReg_def)
  then show ?case
    using Cons.IH [OF steps(3)] steps(1) leaf(1,2) by auto
qed

lemma Semantics_addResOperand:
  "addResOperand P NS F = (P', F') \<Longrightarrow> Semantics F' = Semantics F @ [NS]"
  by (auto simp: addResOperand_def addSemantics_def Let_def)


text \<open>
  Claim C4. When the operator of an SDNode is in the equivalence map and
  \<^verbatim>\<open>flattenSDNode\<close> returns, the node it built has the enum name of the equivalent
  node as opcode, and its types are those it was given without the last \<open>k\<close>, where
  \<open>k\<close> is the unsigned difference of the number of types of the tree node and the
  number of results of the equivalent. The node that \<^verbatim>\<open>flatten\<close> appends for such a
  tree node is this one. When \<^verbatim>\<open>flattenSet\<close> returns for a set whose last child
  produced \<open>length (Operands D)\<close> results, fewer than the destinations, every
  destination from that position on is a leaf naming a Register, and the register is
  in the set of eliminated implicit registers.
\<close>

theorem C4_equivalence_rewrite:
  "(SDNodeEquiv (Target F) Operator = Some EquivNode \<and>
    getSDNodeInfo (Target F) EquivNode = Some SDNI \<and>
    flattenSDNode CGI TPN Operator Cs NS F = Inr (NS', F') \<longrightarrow>
      Opcode NS' = EnumName SDNI \<and>
      unat ((of_nat (getNumTypes TPN) :: 32 word) - NumResults SDNI) \<le> length (Types NS) \<and>
      Types NS' =
        take (length (Types NS) - unat ((of_nat (getNumTypes TPN) :: 32 word) - NumResults SDNI))
          (Types NS)) \<and>
   (SDNodeEquiv (Target F) Operator = Some EquivNode \<and>
    getSDNodeInfo (Target F) EquivNode = Some SDNI \<and>
    getNamedOperand CGI N = None \<and> getName Operator \<noteq> ''set'' \<and>
    getName Operator \<noteq> ''implicit'' \<and> Ts \<noteq> [] \<and>
    flatten CGI (Node N Ts Operator Cs) Parent F = Inr (P', F'') \<longrightarrow>
      Semantics F'' \<noteq> [] \<and>
      Opcode (last (Semantics F'')) = EnumName SDNI \<and>
      Types (last (Semantics F'')) =
        take (length Ts - unat ((of_nat (length Ts) :: 32 word) - NumResults SDNI)) Ts) \<and>
   (Dsts \<noteq> [] \<and> length Dsts - 1 = getNumTypes (last Dsts) \<and>
    flatten CGI (last Dsts) (Some emptyNS) F0 = Inr (Some D, F1) \<and>
    flattenSet CGI SetTPN Dsts F0 = Inr F2 \<longrightarrow>
      (\<forall>i. length (Operands D) \<le> i \<and> i < length Dsts - 1 \<longrightarrow>
         (\<exists>N Ts R. Dsts ! i = Leaf N Ts (DefInit R) \<and> isSubClassOf R ''Register'' \<and>
                    R \<in> set (EliminatedImplicitRegs F2))))"
proof -
  have rewrite: "Opcode NS' = EnumName SDNI \<and>
      unat ((of_nat (getNumTypes TPN) :: 32 word) - NumResults SDNI) \<le> length (Types NS) \<and>
      Types NS' =
        take (length (Types NS) - unat ((of_nat (getNumTypes TPN) :: 32 word) - NumResults SDNI))
          (Types NS)"
    if a: "SDNodeEquiv (Target F) Operator = Some EquivNode"
      "getSDNodeInfo (Target F) EquivNode = Some SDNI"
      "flattenSDNode CGI TPN Operator Cs NS F = Inr (NS', F')"
    for TPN NS NS' F'
  proof -
    let ?k = "unat ((of_nat (getNumTypes TPN) :: 32 word) - NumResults SDNI)"
    from a(3) obtain NS1 where rw: "flattenSDNode_rewrite (Target F) TPN Operator NS = Inr NS1"
      and ch: "flattenSDNode_children CGI Cs NS1 F = Inr (NS', F')"
      by (auto simp: flattenSDNode.simps split: sum.splits)
    from rw a(1,2) obtain Ts' where pop: "pop_back_n ?k (Types NS) = Inr Ts'"
      and ns1: "NS1 = NS\<lparr>Opcode := EnumName SDNI, Types := Ts'\<rparr>"
      by (auto simp: flattenSDNode_rewrite_def split: sum.splits)
    from pop_back_n_take [OF pop] flattenSDNode_children_shape [OF ch]
    show ?thesis
      by (simp add: ns1)
  qed
  have node: "Semantics F'' \<noteq> [] \<and>
      Opcode (last (Semantics F'')) = EnumName SDNI \<and>
      Types (last (Semantics F'')) =
        take (length Ts - unat ((of_nat (length Ts) :: 32 word) - NumResults SDNI)) Ts"
    if b: "SDNodeEquiv (Target F) Operator = Some EquivNode"
      "getSDNodeInfo (Target F) EquivNode = Some SDNI"
      "getNamedOperand CGI N = None" "getName Operator \<noteq> ''set''"
      "getName Operator \<noteq> ''implicit''" "Ts \<noteq> []"
      "flatten CGI (Node N Ts Operator Cs) Parent F = Inr (P', F'')"
  proof -
    let ?TPN = "Node N Ts Operator Cs"
    let ?NS = "setNSTypeFromNode emptyNS ?TPN"
    from b(3-5,7) obtain NS1 F1 where sd: "flattenSDNode CGI ?TPN Operator Cs ?NS F = Inr (NS1, F1)"
      and sem: "Semantics F'' = Semantics F1 @ [NS1]"
      by (auto simp: flatten.simps Let_def addSemantics_def
          split: if_splits sum.splits option.splits prod.splits
          dest: Semantics_addResOperand)
    have tys: "Types ?NS = Ts" "getNumTypes ?TPN = length Ts"
      using b(6) by (simp_all add: setNSTypeFromNode_def getNumTypes_def emptyNS_def)
    from rewrite [OF b(1,2) sd] show ?thesis
      by (simp add: sem tys)
  qed
  have drops: "\<forall>i. length (Operands D) \<le> i \<and> i < length Dsts - 1 \<longrightarrow>
         (\<exists>N Ts R. Dsts ! i = Leaf N Ts (DefInit R) \<and> isSubClassOf R ''Register'' \<and>
                    R \<in> set (EliminatedImplicitRegs F2))"
    if c: "Dsts \<noteq> []" "length Dsts - 1 = getNumTypes (last Dsts)"
      "flatten CGI (last Dsts) (Some emptyNS) F0 = Inr (Some D, F1)"
      "flattenSet CGI SetTPN Dsts F0 = Inr F2"
  proof -
    from c obtain F3 where dr:
      "flattenSet_drops Dsts [length (Operands D)..<length Dsts - 1] F3 = Inr F2"
      by (auto simp: flattenSet.simps Let_def split: sum.splits if_splits)
    from flattenSet_drops_registers [OF dr] show ?thesis
      by auto
  qed
  show ?thesis
    using rewrite node drops by blast
qed

theorem C4_witness:
  "Opcode (fst (projr (flattenSDNode ADD32rr (last (getChildren S5)) X86add_flag
       (getChildren (last (getChildren S5)))
       (setNSTypeFromNode emptyNS (last (getChildren S5))) (newFlattener X86Target [])))) =
     ''ISD::ADD'' \<and>
   Types (fst (projr (flattenSDNode ADD32rr (last (getChildren S5)) X86add_flag
       (getChildren (last (getChildren S5)))
       (setNSTypeFromNode emptyNS (last (getChildren S5))) (newFlattener X86Target [])))) =
     [VT ''i32''] \<and>
   Opcode (last (Semantics (snd (projr (flatten ADD32rr (last (getChildren S5)) (Some emptyNS)
       (newFlattener X86Target [])))))) = ''ISD::ADD'' \<and>
   EFLAGS \<in> set (EliminatedImplicitRegs
       (projr (flattenSet ADD32rr S5 (getChildren S5) (newFlattener X86Target []))))"
proof -
  let ?F = "newFlattener X86Target []"
  let ?L = "last (getChildren S5)"
  let ?NS = "setNSTypeFromNode emptyNS ?L"
  let ?R = "flattenSDNode ADD32rr ?L X86add_flag (getChildren ?L) ?NS ?F"
  let ?RL = "flatten ADD32rr ?L (Some emptyNS) ?F"
  let ?RS = "flattenSet ADD32rr S5 (getChildren S5) ?F"
  let ?SDNI = "\<lparr>EnumName = ''ISD::ADD'', NumResults = 1\<rparr>"
  have eqv: "SDNodeEquiv (Target ?F) X86add_flag = Some add"
    and inf: "getSDNodeInfo (Target ?F) add = Some ?SDNI"
    by (simp_all add: newFlattener_def X86Target_def newSemanticsTarget_def)
  have "\<not> isl ?R"
    by code_simp
  then have r: "?R = Inr (fst (projr ?R), snd (projr ?R))"
    by (cases ?R) simp_all
  have "\<not> isl ?RL" "fst (projr ?RL) \<noteq> None"
    by code_simp+
  then have rl: "?RL = Inr (Some (the (fst (projr ?RL))), snd (projr ?RL))"
    by (cases ?RL) auto
  have "\<not> isl ?RS"
    by code_simp
  then have rs: "?RS = Inr (projr ?RS)"
    by (cases ?RS) simp_all
  have shape: "getChildren S5 \<noteq> []" "length (getChildren S5) - 1 = getNumTypes ?L"
    by (simp_all add: S5_def getNumTypes_def)
  note main = C4_equivalence_rewrite [where F = ?F and Operator = X86add_flag
      and EquivNode = add and SDNI = ?SDNI and CGI = ADD32rr and TPN = ?L
      and Cs = "getChildren ?L" and NS = ?NS and NS' = "fst (projr ?R)" and F' = "snd (projr ?R)"
      and Dsts = "getChildren S5" and ?F0.0 = ?F and D = "the (fst (projr ?RL))"
      and ?F1.0 = "snd (projr ?RL)" and SetTPN = S5 and ?F2.0 = "projr ?RS"
      and N = "[]" and Ts = "[i32, i32]" and Parent = "Some emptyNS"
      and P' = "Some (the (fst (projr ?RL)))" and F'' = "snd (projr ?RL)"]
  have nm: "getNamedOperand ADD32rr [] = None"
    by (simp add: getNamedOperand_def)
  have opn: "getName X86add_flag \<noteq> ''set''" "getName X86add_flag \<noteq> ''implicit''"
    by (simp_all add: X86add_flag_def)
  have lastc: "?L = Node [] [i32, i32] X86add_flag (getChildren ?L)"
    by (simp add: S5_def)
  from main eqv inf r have a: "Opcode (fst (projr ?R)) = EnumName ?SDNI"
    and t: "Types (fst (projr ?R)) =
        take (length (Types ?NS) - unat ((of_nat (getNumTypes ?L) :: 32 word) - NumResults ?SDNI))
          (Types ?NS)"
    by blast+
  have tys: "take (length (Types ?NS) - unat ((of_nat (getNumTypes ?L) :: 32 word) - NumResults ?SDNI))
          (Types ?NS) = [VT ''i32'']"
    by (simp add: S5_def getNumTypes_def setNSTypeFromNode_def emptyNS_def i32_def)
  have rl': "flatten ADD32rr (Node [] [i32, i32] X86add_flag (getChildren ?L)) (Some emptyNS) ?F =
      Inr (Some (the (fst (projr ?RL))), snd (projr ?RL))"
    by (subst lastc [symmetric]) (rule rl)
  have ne: "[i32, i32] \<noteq> []"
    by simp
  from main eqv inf nm opn ne rl'
  have o: "Opcode (last (Semantics (snd (projr ?RL)))) = EnumName ?SDNI"
    by blast
  have one: "length (Operands (the (fst (projr ?RL)))) \<le> 1"
    by code_simp
  from main shape rl rs have "\<forall>i. length (Operands (the (fst (projr ?RL)))) \<le> i \<and>
      i < length (getChildren S5) - 1 \<longrightarrow>
      (\<exists>N Ts R. getChildren S5 ! i = Leaf N Ts (DefInit R) \<and> isSubClassOf R ''Register'' \<and>
          R \<in> set (EliminatedImplicitRegs (projr ?RS)))"
    by blast
  then have all: "\<And>i. length (Operands (the (fst (projr ?RL)))) \<le> i \<Longrightarrow>
      i < length (getChildren S5) - 1 \<Longrightarrow>
      \<exists>N Ts R. getChildren S5 ! i = Leaf N Ts (DefInit R) \<and> isSubClassOf R ''Register'' \<and>
          R \<in> set (EliminatedImplicitRegs (projr ?RS))"
    by blast
  have lt: "1 < length (getChildren S5) - 1"
    by (simp add: S5_def)
  have c1: "getChildren S5 ! 1 = Leaf [] [i32] (DefInit EFLAGS)"
    by (simp add: S5_def)
  from all [OF one lt] have "EFLAGS \<in> set (EliminatedImplicitRegs (projr ?RS))"
    unfolding c1 by auto
  then show ?thesis
    using a t tys o by simp
qed


section \<open>The implicit nodes at the end of a tree\<close>

text \<open>
  Claim C8 says that an instruction gets exactly one \<^verbatim>\<open>DCINS::IMPLICIT\<close> node for
  each eliminated register. The public flatten pushes these nodes at the end of every
  tree, and the set of eliminated registers is kept from one tree of the pattern to the
  next. For the pattern of two trees whose first tree drops \<open>EFLAGS\<close>, the register is
  inserted once and the instruction gets two implicit nodes for it, one of them in the
  middle of the block.
\<close>

theorem C8_implicit_nodes_repeated:
  "map_sum id Semantics (flattenTrees ADD32rr TwoTrees (newFlattener X86Target [])) =
     Inr [\<lparr>Opcode = ''DCINS::GET_RC'', Types = [VT ''i32''], Operands = [''1'']\<rparr>,
          \<lparr>Opcode = ''DCINS::GET_RC'', Types = [VT ''i32''], Operands = [''2'']\<rparr>,
          \<lparr>Opcode = ''ISD::ADD'', Types = [VT ''i32''], Operands = [''0'', ''1'']\<rparr>,
          \<lparr>Opcode = ''DCINS::PUT_RC'', Types = [isVoid], Operands = [''0'', ''2'']\<rparr>,
          \<lparr>Opcode = ''DCINS::IMPLICIT'', Types = [isVoid], Operands = [''X86::EFLAGS'']\<rparr>,
          \<lparr>Opcode = ''DCINS::GET_RC'', Types = [VT ''i32''], Operands = [''1'']\<rparr>,
          \<lparr>Opcode = ''DCINS::GET_RC'', Types = [VT ''i32''], Operands = [''2'']\<rparr>,
          \<lparr>Opcode = ''ISD::ADD'', Types = [VT ''i32''], Operands = [''3'', ''4'']\<rparr>,
          \<lparr>Opcode = ''DCINS::PUT_RC'', Types = [isVoid], Operands = [''0'', ''5'']\<rparr>,
          \<lparr>Opcode = ''DCINS::IMPLICIT'', Types = [isVoid], Operands = [''X86::EFLAGS'']\<rparr>] \<and>
   map_sum id EliminatedImplicitRegs (flattenTrees ADD32rr TwoTrees (newFlattener X86Target [])) =
     Inr [EFLAGS]"
  by code_simp


section \<open>Properties of the constant pool\<close>

lemma firstSeen_snoc:
  "firstSeen (Vs @ [V]) = (if V \<in> set (firstSeen Vs) then firstSeen Vs else firstSeen Vs @ [V])"
  by (simp add: firstSeen_def)

lemma set_firstSeen: "set (firstSeen Vs) = set Vs"
  by (induction Vs rule: rev_induct) (auto simp: firstSeen_snoc, simp add: firstSeen_def)

lemma distinct_firstSeen: "distinct (firstSeen Vs)"
  by (induction Vs rule: rev_induct) (auto simp: firstSeen_snoc, simp add: firstSeen_def)

lemma length_firstSeen_snoc: "length (firstSeen Vs) \<le> length (firstSeen (Vs @ [V]))"
  by (simp add: firstSeen_snoc)

lemma map_lookup_assign:
  "map_lookup (map_assign K V M) K' = (if K' = K then Some V else map_lookup M K')"
  by (induction M) auto

lemma map_lookup_None_iff: "map_lookup M K = None \<longleftrightarrow> K \<notin> fst ` set M"
  by (induction M) (auto split: if_splits)

lemma keys_map_assign: "fst ` set (map_assign K V M) = insert K (fst ` set M)"
proof -
  have "K' \<in> fst ` set (map_assign K V M) \<longleftrightarrow> K' \<in> insert K (fst ` set M)" for K'
    using map_lookup_None_iff [of "map_assign K V M" K'] map_lookup_None_iff [of M K']
    by (simp add: map_lookup_assign split: if_splits)
  then show ?thesis by blast
qed

lemma sorted_map_assign:
  "sorted_wrt (<) (map fst M) \<Longrightarrow> sorted_wrt (<) (map fst (map_assign K V M))"
proof (induction M)
  case Nil
  then show ?case by simp
next
  case (Cons a M)
  obtain K' V' where a: "a = (K', V')" by (cases a)
  have tl: "\<forall>k \<in> fst ` set M. K' < k" and srt: "sorted_wrt (<) (map fst M)"
    using Cons.prems by (auto simp: a)
  show ?case
  proof (cases "K = K'")
    case True
    then show ?thesis using Cons.prems by (simp add: a)
  next
    case False
    show ?thesis
    proof (cases "K < K'")
      case True
      then have "\<forall>k \<in> fst ` set M. K < k"
        using tl by (meson order_less_trans)
      then show ?thesis
        using True False Cons.prems by (auto simp: a)
    next
      case ge: False
      then have "K' < K" using False by simp
      then have "\<forall>k \<in> fst ` set (map_assign K V M). K' < k"
        using tl by (simp add: keys_map_assign)
      then show ?thesis
        using ge False Cons.IH [OF srt] by (auto simp: a)
    qed
  qed
qed

lemma length_map_assign_new:
  "map_lookup M K = None \<Longrightarrow> length (map_assign K V M) = Suc (length M)"
  by (induction M) (auto split: if_splits)

lemma map_lookup_in_set:
  "distinct (map fst M) \<Longrightarrow> (K, I) \<in> set M \<Longrightarrow> map_lookup M K = Some I"
  by (induction M) (auto simp: rev_image_eqI)

lemma map_lookup_sorted_in_set:
  "sorted_wrt (<) (map fst M) \<Longrightarrow> (K, I) \<in> set M \<Longrightarrow> map_lookup M K = Some I"
  using map_lookup_in_set strict_sorted_iff by blast

lemma unat_of_nat_Suc32:
  "n < 2 ^ 32 - 1 \<Longrightarrow> unat (of_nat (Suc n) :: 32 word) = Suc n"
  by (rule of_nat_inverse) simp_all

lemma of_nat_Suc32_neq0:
  "n < 2 ^ 32 - 1 \<Longrightarrow> (of_nat (Suc n) :: 32 word) \<noteq> 0"
  using unat_of_nat_Suc32 [of n] by (metis Zero_not_Suc unat_0)

lemma internConstant_present:
  assumes "pool_lists Fs T" "length Fs < 2 ^ 32 - 1" "j < length Fs"
  shows "internConstant (Fs ! j) T = (of_nat (Suc j), T)"
proof -
  have look: "map_lookup (ConstantIdx T) (Fs ! j) = Some (of_nat (Suc j))"
    using assms unfolding pool_lists_def by blast
  have "(of_nat (Suc j) :: 32 word) \<noteq> 0"
    using assms by (intro of_nat_Suc32_neq0) simp
  then show ?thesis
    by (simp add: internConstant_def look Let_def del: of_nat_Suc)
qed

lemma internConstant_absent:
  assumes "pool_lists Fs T" "V \<notin> set Fs"
  shows "internConstant V T =
           (of_nat (Suc (length Fs)),
            T\<lparr>ConstantIdx := map_assign V (of_nat (Suc (length Fs))) (ConstantIdx T),
              CurConstIdx := of_nat (Suc (length Fs)) + 1\<rparr>)"
proof -
  have "map_lookup (ConstantIdx T) V = None"
  proof (cases "map_lookup (ConstantIdx T) V")
    case (Some I)
    then obtain j where "j < length Fs" "Fs ! j = V"
      using assms(1) unfolding pool_lists_def by blast
    then show ?thesis using assms(2) by auto
  qed simp
  moreover have "CurConstIdx T = of_nat (Suc (length Fs))"
    using assms(1) by (simp add: pool_lists_def)
  ultimately show ?thesis
    by (simp add: internConstant_def Let_def del: of_nat_Suc)
qed

lemma pool_lists_step_absent:
  assumes "pool_lists Fs T" "V \<notin> set Fs"
  shows "pool_lists (Fs @ [V]) (snd (internConstant V T))"
proof -
  have none: "map_lookup (ConstantIdx T) V = None"
  proof (cases "map_lookup (ConstantIdx T) V")
    case (Some I)
    then obtain j where "j < length Fs" "Fs ! j = V"
      using assms(1) unfolding pool_lists_def by blast
    then show ?thesis using assms(2) by auto
  qed simp
  have char: "\<And>K I. map_lookup (ConstantIdx T) K = Some I \<longleftrightarrow>
            (\<exists>j < length Fs. Fs ! j = K \<and> I = of_nat (Suc j))"
    using assms(1) unfolding pool_lists_def by blast
  have "(if K = V then Some (of_nat (Suc (length Fs))) else map_lookup (ConstantIdx T) K) = Some I \<longleftrightarrow>
        (\<exists>j < Suc (length Fs). (Fs @ [V]) ! j = K \<and> I = of_nat (Suc j))" for K and I :: "32 word"
  proof (cases "K = V")
    case True
    have "\<And>j. j < length Fs \<Longrightarrow> Fs ! j \<noteq> V"
      using assms(2) by auto
    then show ?thesis
      using True by (auto simp: nth_append less_Suc_eq simp del: of_nat_Suc)
  next
    case False
    then show ?thesis
      by (auto simp: char nth_append less_Suc_eq simp del: of_nat_Suc)
  qed
  then have look: "\<forall>K I. map_lookup (map_assign V (of_nat (Suc (length Fs))) (ConstantIdx T)) K = Some I \<longleftrightarrow>
        (\<exists>j < length (Fs @ [V]). (Fs @ [V]) ! j = K \<and> I = of_nat (Suc j))"
    by (simp add: map_lookup_assign del: of_nat_Suc)
  have srt: "sorted_wrt (<) (map fst (map_assign V (of_nat (Suc (length Fs))) (ConstantIdx T)))"
    using assms(1) by (intro sorted_map_assign) (simp add: pool_lists_def)
  have len: "length (map_assign V (of_nat (Suc (length Fs))) (ConstantIdx T)) = length (Fs @ [V])"
    using assms(1) by (simp add: length_map_assign_new none pool_lists_def)
  have dist: "distinct (Fs @ [V])"
    using assms by (simp add: pool_lists_def)
  have cur: "(of_nat (Suc (length Fs)) :: 32 word) + 1 = of_nat (Suc (length (Fs @ [V])))"
    by simp
  show ?thesis
    unfolding pool_lists_def internConstant_absent [OF assms]
    using look srt len dist cur by (simp del: of_nat_Suc)
qed

lemma pool_lists_internAll:
  "length (firstSeen Vs) < 2 ^ 32 - 1 \<Longrightarrow>
   pool_lists (firstSeen Vs) (internAll Vs (newSemanticsTarget Eqv Infos))"
proof (induction Vs rule: rev_induct)
  case Nil
  show ?case
    by (simp add: pool_lists_def firstSeen_def internAll_def newSemanticsTarget_def)
next
  case (snoc V Vs)
  let ?T = "internAll Vs (newSemanticsTarget Eqv Infos)"
  have step: "internAll (Vs @ [V]) (newSemanticsTarget Eqv Infos) = snd (internConstant V ?T)"
    by (simp add: internAll_def)
  have bound: "length (firstSeen Vs) < 2 ^ 32 - 1"
    using snoc.prems length_firstSeen_snoc [of Vs V] by simp
  note IH = snoc.IH [OF bound]
  show ?case
  proof (cases "V \<in> set (firstSeen Vs)")
    case True
    then obtain j where j: "j < length (firstSeen Vs)" "firstSeen Vs ! j = V"
      by (auto simp: in_set_conv_nth)
    have "internConstant V ?T = (of_nat (Suc j), ?T)"
      using internConstant_present [OF IH bound j(1)] j(2) by simp
    then show ?thesis
      using IH True by (simp add: step firstSeen_snoc)
  next
    case False
    then show ?thesis
      using pool_lists_step_absent [OF IH False] by (simp add: step firstSeen_snoc)
  qed
qed


lemma fillConstants_fold:
  "\<forall>(V, I) \<in> set M. unat I < length A \<Longrightarrow>
   fillConstants M A = Inr (fold (\<lambda>(V, I) A'. A'[unat I := V]) M A)"
  by (induction M arbitrary: A) auto

lemma length_fill: "length (fold (\<lambda>(V, I) A'. A'[unat I := V]) M A) = length A"
  by (induction M arbitrary: A) auto

lemma fill_other:
  "j \<notin> unat ` snd ` set M \<Longrightarrow> fold (\<lambda>(V, I) A'. A'[unat I := V]) M A ! j = A ! j"
  by (induction M arbitrary: A) (auto simp: image_iff)

lemma fill_entry:
  fixes M :: "(64 word \<times> 32 word) list"
  assumes "\<forall>(V, I) \<in> set M. \<forall>(V', I') \<in> set M. I = I' \<longrightarrow> V = V'"
    and "(V, I) \<in> set M" and "unat I < length A"
  shows "fold (\<lambda>(V, I) A'. A'[unat I := V]) M A ! unat I = V"
  using assms
proof (induction M arbitrary: A)
  case Nil
  then show ?case by simp
next
  case (Cons a M)
  obtain V0 I0 where a: "a = (V0, I0 :: 32 word)" by (cases a)
  have fn: "\<forall>(V, I) \<in> set M. \<forall>(V', I') \<in> set M. I = I' \<longrightarrow> V = V'"
    using Cons.prems(1) by auto
  show ?case
  proof (cases "I \<in> snd ` set M")
    case True
    then obtain V' where in_tl: "(V', I) \<in> set M" by auto
    have "V' = V"
      using Cons.prems(1,2) in_tl by (auto simp: a)
    then show ?thesis
      using Cons.IH [OF fn, of "A[unat I0 := V0]"] in_tl Cons.prems(3) by (simp add: a)
  next
    case False
    then have hd: "V0 = V" "I0 = I"
      using Cons.prems(2) by (auto simp: a image_iff)
    have "unat I \<notin> unat ` snd ` set M"
      using False by (auto simp: image_iff word_unat_eq_iff)
    then show ?thesis
      using Cons.prems(3) by (simp add: a hd fill_other)
  qed
qed

lemma map_lookup_Some_in_set: "map_lookup M K = Some I \<Longrightarrow> (K, I) \<in> set M"
  by (induction M) (auto split: if_splits)

lemma pool_lists_entries:
  assumes "pool_lists Fs T" "(V, I) \<in> set (ConstantIdx T)"
  shows "\<exists>j < length Fs. Fs ! j = V \<and> I = of_nat (Suc j)"
proof -
  have "map_lookup (ConstantIdx T) V = Some I"
    using assms by (intro map_lookup_sorted_in_set) (simp_all add: pool_lists_def)
  then show ?thesis
    using assms(1) unfolding pool_lists_def by blast
qed

lemma pool_lists_in_set:
  assumes "pool_lists Fs T" "j < length Fs"
  shows "(Fs ! j, of_nat (Suc j)) \<in> set (ConstantIdx T)"
proof -
  have "map_lookup (ConstantIdx T) (Fs ! j) = Some (of_nat (Suc j))"
    using assms unfolding pool_lists_def by blast
  then show ?thesis
    by (rule map_lookup_Some_in_set)
qed

lemma printConstantArray_pool_lists:
  assumes "pool_lists Fs T" "length Fs < 2 ^ 32 - 1"
  shows "printConstantArray T = Inr (0 # Fs)"
proof -
  let ?M = "ConstantIdx T"
  let ?A = "replicate (length ?M + 1) (0 :: 64 word)"
  have len: "length ?M = length Fs"
    using assms(1) by (simp add: pool_lists_def)
  have entry: "\<exists>j < length Fs. Fs ! j = V \<and> I = of_nat (Suc j) \<and> unat I = Suc j"
    if mem: "(V, I) \<in> set ?M" for V I
  proof -
    obtain j where j: "j < length Fs" "Fs ! j = V" "I = of_nat (Suc j)"
      using pool_lists_entries [OF assms(1) mem] by blast
    have "unat (of_nat (Suc j) :: 32 word) = Suc j"
      using j(1) assms(2) by (intro unat_of_nat_Suc32) simp
    then show ?thesis using j by blast
  qed
  have range: "\<forall>(V, I) \<in> set ?M. unat I < length ?A"
  proof (clarify)
    fix V I assume "(V, I) \<in> set ?M"
    then obtain j where "j < length Fs" "unat I = Suc j"
      using entry by blast
    then show "unat I < length ?A" by (simp add: len)
  qed
  have fn: "\<forall>(V, I) \<in> set ?M. \<forall>(V', I') \<in> set ?M. I = I' \<longrightarrow> V = V'"
  proof (clarify)
    fix V I V'
    assume "(V, I) \<in> set ?M" "(V', I) \<in> set ?M"
    then obtain j j' where "j < length Fs" "Fs ! j = V" "unat I = Suc j"
      "j' < length Fs" "Fs ! j' = V'" "unat I = Suc j'"
      using entry by metis
    then show "V = V'" by simp
  qed
  let ?R = "fold (\<lambda>(V, I) A'. A'[unat I := V]) ?M ?A"
  have eq: "?R = 0 # Fs"
  proof (rule nth_equalityI)
    show "length ?R = length (0 # Fs)"
      by (simp add: length_fill len)
  next
    fix i assume "i < length ?R"
    then have i: "i < Suc (length Fs)" by (simp add: length_fill len)
    show "?R ! i = (0 # Fs) ! i"
    proof (cases i)
      case 0
      have "0 \<notin> unat ` snd ` set ?M"
      proof
        assume "0 \<in> unat ` snd ` set ?M"
        then obtain V I where "(V, I) \<in> set ?M" "unat I = 0" by force
        then show False using entry by fastforce
      qed
      then show ?thesis
        by (simp add: 0 fill_other)
    next
      case (Suc j)
      then have j: "j < length Fs" using i by simp
      have mem: "(Fs ! j, of_nat (Suc j)) \<in> set ?M"
        using pool_lists_in_set [OF assms(1) j] .
      have un: "unat (of_nat (Suc j) :: 32 word) = Suc j"
        using j assms(2) by (intro unat_of_nat_Suc32) simp
      have "?R ! unat (of_nat (Suc j) :: 32 word) = Fs ! j"
        using fn mem by (rule fill_entry) (simp add: un len j del: of_nat_Suc)
      then show ?thesis
        by (simp add: Suc un del: of_nat_Suc)
    qed
  qed
  have fc: "fillConstants ?M ?A = Inr ?R"
    using range by (rule fillConstants_fold)
  show ?thesis
    unfolding printConstantArray_def fc eq by (rule refl)
qed

lemma firstSeen_append: "\<exists>Xs. firstSeen (Vs @ Ws) = firstSeen Vs @ Xs"
proof (induction Ws rule: rev_induct)
  case Nil
  then show ?case by simp
next
  case (snoc W Ws)
  then obtain Xs where "firstSeen (Vs @ Ws) = firstSeen Vs @ Xs" by blast
  then show ?case
    using firstSeen_snoc [of "Vs @ Ws" W] by (cases "W \<in> set (firstSeen (Vs @ Ws))") auto
qed

lemma flattenLeaf_IntInit:
  assumes "flattenLeaf CGI (Leaf N Ts (IntInit Value)) Parent F = Inr (P', F')"
  shows "Target F' = snd (internConstant Value (Target F))"
    and "Semantics F' = Semantics F @
           [\<lparr>Opcode = ''DCINS::MOV_CONSTANT'', Types = (if Ts = [] then [isVoid] else Ts),
             Operands = [utostr (unat (fst (internConstant Value (Target F))))]\<rparr>]"
  using assms
  by (auto simp: flattenLeaf_def Let_def addResOperand_Parent_def addResOperand_def
      addSemantics_def setNSTypeFromNode_def emptyNS_def addOperand_def getNumTypes_def
      split: prod.splits option.splits)

lemma flattenLeaf_IntInit_returns:
  "\<exists>P' F'. flattenLeaf CGI (Leaf N Ts (IntInit Value)) (Some P) F = Inr (P', F')"
  by (simp add: flattenLeaf_def Let_def addResOperand_Parent_def split: prod.splits)


text \<open>
  Claim C6. Let a session have interned the literals \<open>Vs\<close> and, later, the literals
  \<open>Ws\<close>, fewer than \<open>2 ^ 32 - 1\<close> distinct ones in all (the range of the
  \<^verbatim>\<open>unsigned\<close> counter). If \<open>Value\<close> is among \<open>Vs\<close>, interning it returns the index
  it was given at first, its position among the distinct literals plus one, and leaves
  the target unchanged, right after \<open>Vs\<close> and also after the later literals \<open>Ws\<close>. If
  it is new, it gets the next index, the number of distinct literals so far plus one (so
  1 for the very first), the pool gains this one entry, and the counter moves on by one.
  The index returned is never 0.

  The session is that of the code. \<^verbatim>\<open>flattenLeaf\<close> of an integer literal returns, with
  the target that interning the literal gives and with a new \<^verbatim>\<open>DCINS::MOV_CONSTANT\<close>
  node whose operand is the index returned. \<^verbatim>\<open>flatten\<close> interns exactly the literals
  of its tree into the pool it finds. The constructor of \<^verbatim>\<open>InstSemantics\<close> hands back
  that pool with the literals of the pattern interned. And the emitter, built from fewer
  than \<open>2 ^ 32 - 1\<close> records and instructions, ends with the one pool into which the
  literals of all the patterns it flattened were interned, in the order of its two loops.
\<close>

theorem C6_internConstant:
  assumes "length (firstSeen (Vs @ Ws)) < 2 ^ 32 - 1"
  shows "(Value \<in> set Vs \<longrightarrow>
            (\<exists>j < length (firstSeen Vs). firstSeen Vs ! j = Value \<and>
               internConstant Value (internAll Vs (newSemanticsTarget Eqv Infos)) =
                 (of_nat (Suc j), internAll Vs (newSemanticsTarget Eqv Infos)) \<and>
               internConstant Value (internAll (Vs @ Ws) (newSemanticsTarget Eqv Infos)) =
                 (of_nat (Suc j), internAll (Vs @ Ws) (newSemanticsTarget Eqv Infos)))) \<and>
         (Value \<notin> set Vs \<longrightarrow>
            (case internConstant Value (internAll Vs (newSemanticsTarget Eqv Infos)) of
               (Idx, T') \<Rightarrow>
                 unat Idx = Suc (length (firstSeen Vs)) \<and>
                 map_lookup (ConstantIdx T') =
                   (map_lookup (ConstantIdx (internAll Vs (newSemanticsTarget Eqv Infos))))(Value \<mapsto> Idx) \<and>
                 length (ConstantIdx T') =
                   Suc (length (ConstantIdx (internAll Vs (newSemanticsTarget Eqv Infos)))) \<and>
                 CurConstIdx T' = Idx + 1)) \<and>
         fst (internConstant Value (internAll Vs (newSemanticsTarget Eqv Infos))) \<noteq> 0 \<and>
         (\<forall>CGI N Ts P F. \<exists>P' F'.
            flattenLeaf CGI (Leaf N Ts (IntInit Value)) (Some P) F = Inr (P', F') \<and>
            Target F' = snd (internConstant Value (Target F)) \<and>
            Semantics F' = Semantics F @
              [\<lparr>Opcode = ''DCINS::MOV_CONSTANT'', Types = (if Ts = [] then [isVoid] else Ts),
                Operands = [utostr (unat (fst (internConstant Value (Target F))))]\<rparr>]) \<and>
         (\<forall>CGI TPN Parent F P' F'.
            flatten CGI TPN Parent F = Inr (P', F') \<longrightarrow>
            Target F' = internAll (literals CGI TPN) (Target F)) \<and>
         (\<forall>T D CGI TP Sema T' D'.
            InstSemantics_pattern T D CGI TP = Inr (Sema, T', D') \<longrightarrow>
            T' = internAll (patternLiterals CGI TP) T) \<and>
         (\<forall>TD E.
            newSemanticsEmitter (newSemanticsTarget Eqv Infos) TD = Inr E \<and>
            length (SemanticsRecords TD) + length (InstructionsByEnumValue TD) < 2 ^ 32 - 1 \<longrightarrow>
            SemaTarget E = internAll (sessionLiterals TD) (newSemanticsTarget Eqv Infos))"
proof -
  let ?New = "newSemanticsTarget Eqv Infos"
  let ?T = "internAll Vs ?New"
  let ?Fs = "firstSeen Vs"
  let ?Tw = "internAll (Vs @ Ws) ?New"
  let ?Fw = "firstSeen (Vs @ Ws)"
  obtain Xs where pre: "?Fw = ?Fs @ Xs"
    using firstSeen_append by blast
  have bound: "length ?Fs < 2 ^ 32 - 1"
    using assms by (simp add: pre)
  have inv: "pool_lists ?Fs ?T"
    using bound by (rule pool_lists_internAll)
  have inv2: "pool_lists ?Fw ?Tw"
    using assms by (rule pool_lists_internAll)
  have present: "\<exists>j < length ?Fs. ?Fs ! j = Value \<and> internConstant Value ?T = (of_nat (Suc j), ?T) \<and>
                   internConstant Value ?Tw = (of_nat (Suc j), ?Tw)"
    if "Value \<in> set Vs"
  proof -
    from that have "Value \<in> set ?Fs"
      by (simp add: set_firstSeen)
    then obtain j where j: "j < length ?Fs" "?Fs ! j = Value"
      by (auto simp: in_set_conv_nth)
    have j2: "j < length ?Fw" "?Fw ! j = Value"
      using j by (simp_all add: pre nth_append)
    have "internConstant Value ?T = (of_nat (Suc j), ?T)"
      using internConstant_present [OF inv bound j(1)] j(2) by simp
    moreover have "internConstant Value ?Tw = (of_nat (Suc j), ?Tw)"
      using internConstant_present [OF inv2 assms j2(1)] j2(2) by simp
    ultimately show ?thesis
      using j by blast
  qed
  have absent: "internConstant Value ?T =
           (of_nat (Suc (length ?Fs)),
            ?T\<lparr>ConstantIdx := map_assign Value (of_nat (Suc (length ?Fs))) (ConstantIdx ?T),
              CurConstIdx := of_nat (Suc (length ?Fs)) + 1\<rparr>)"
    and none: "map_lookup (ConstantIdx ?T) Value = None"
    if "Value \<notin> set Vs"
  proof -
    have nin: "Value \<notin> set ?Fs" using that by (simp add: set_firstSeen)
    show "internConstant Value ?T =
           (of_nat (Suc (length ?Fs)),
            ?T\<lparr>ConstantIdx := map_assign Value (of_nat (Suc (length ?Fs))) (ConstantIdx ?T),
              CurConstIdx := of_nat (Suc (length ?Fs)) + 1\<rparr>)"
      using inv nin by (rule internConstant_absent)
    show "map_lookup (ConstantIdx ?T) Value = None"
    proof (cases "map_lookup (ConstantIdx ?T) Value")
      case (Some I)
      then obtain j where "j < length ?Fs" "?Fs ! j = Value"
        using inv unfolding pool_lists_def by blast
      then show ?thesis using nin by auto
    qed simp
  qed
  have un: "unat (of_nat (Suc (length ?Fs)) :: 32 word) = Suc (length ?Fs)"
    using bound by (rule unat_of_nat_Suc32)
  have nz: "fst (internConstant Value ?T) \<noteq> 0"
  proof (cases "Value \<in> set Vs")
    case True
    then obtain j where "j < length ?Fs" "internConstant Value ?T = (of_nat (Suc j), ?T)"
      using present by blast
    then show ?thesis
      using of_nat_Suc32_neq0 [of j] bound by (simp del: of_nat_Suc)
  next
    case False
    then show ?thesis
      using absent of_nat_Suc32_neq0 [OF bound] by (simp del: of_nat_Suc)
  qed
  have "map_lookup (map_assign Value (of_nat (Suc (length ?Fs))) (ConstantIdx ?T)) =
        (map_lookup (ConstantIdx ?T))(Value \<mapsto> of_nat (Suc (length ?Fs)))"
    by (rule ext) (simp add: map_lookup_assign del: of_nat_Suc)
  then have fresh: "Value \<notin> set Vs \<longrightarrow>
            (case internConstant Value ?T of
               (Idx, T') \<Rightarrow>
                 unat Idx = Suc (length ?Fs) \<and>
                 map_lookup (ConstantIdx T') = (map_lookup (ConstantIdx ?T))(Value \<mapsto> Idx) \<and>
                 length (ConstantIdx T') = Suc (length (ConstantIdx ?T)) \<and>
                 CurConstIdx T' = Idx + 1)"
    using absent none un
    by (auto simp: length_map_assign_new simp del: of_nat_Suc)
  have known: "Value \<in> set Vs \<longrightarrow>
            (\<exists>j < length ?Fs. ?Fs ! j = Value \<and>
               internConstant Value ?T = (of_nat (Suc j), ?T) \<and>
               internConstant Value ?Tw = (of_nat (Suc j), ?Tw))"
    using present by blast
  have leaf: "\<forall>CGI N Ts P F. \<exists>P' F'.
            flattenLeaf CGI (Leaf N Ts (IntInit Value)) (Some P) F = Inr (P', F') \<and>
            Target F' = snd (internConstant Value (Target F)) \<and>
            Semantics F' = Semantics F @
              [\<lparr>Opcode = ''DCINS::MOV_CONSTANT'', Types = (if Ts = [] then [isVoid] else Ts),
                Operands = [utostr (unat (fst (internConstant Value (Target F))))]\<rparr>]"
  proof (intro allI)
    fix CGI N Ts P F
    obtain P' F' where r: "flattenLeaf CGI (Leaf N Ts (IntInit Value)) (Some P) F = Inr (P', F')"
      using flattenLeaf_IntInit_returns by blast
    show "\<exists>P' F'.
            flattenLeaf CGI (Leaf N Ts (IntInit Value)) (Some P) F = Inr (P', F') \<and>
            Target F' = snd (internConstant Value (Target F)) \<and>
            Semantics F' = Semantics F @
              [\<lparr>Opcode = ''DCINS::MOV_CONSTANT'', Types = (if Ts = [] then [isVoid] else Ts),
                Operands = [utostr (unat (fst (internConstant Value (Target F))))]\<rparr>]"
      using r flattenLeaf_IntInit [OF r] by blast
  qed
  have tree: "\<forall>CGI TPN Parent F P' F'.
            flatten CGI TPN Parent F = Inr (P', F') \<longrightarrow>
            Target F' = internAll (literals CGI TPN) (Target F)"
    using flatten_Target_literals_all(1) by blast
  have ctor: "\<forall>T D CGI TP Sema T' D'.
            InstSemantics_pattern T D CGI TP = Inr (Sema, T', D') \<longrightarrow>
            T' = internAll (patternLiterals CGI TP) T"
    using InstSemantics_pattern_literals by blast
  have emitter: "\<forall>TD E.
            newSemanticsEmitter ?New TD = Inr E \<and>
            length (SemanticsRecords TD) + length (InstructionsByEnumValue TD) < 2 ^ 32 - 1 \<longrightarrow>
            SemaTarget E = internAll (sessionLiterals TD) ?New"
    using newSemanticsEmitter_installed(5) by blast
  show ?thesis
    using known fresh nz leaf tree ctor emitter by (intro conjI)
qed

theorem C6_witness:
  "internConstant 1234 (SemaTarget (projr ImmEmitter)) = (2, SemaTarget (projr ImmEmitter)) \<and>
   internConstant 7 (SemaTarget (projr ImmEmitter)) = (1, SemaTarget (projr ImmEmitter)) \<and>
   unat (fst (internConstant 99 (SemaTarget (projr ImmEmitter)))) = 3 \<and>
   fst (internConstant 99 (SemaTarget (projr ImmEmitter))) \<noteq> 0 \<and>
   map (\<lambda>Sema. map Operands (filter (\<lambda>NS. Opcode NS = ''DCINS::MOV_CONSTANT'') Sema))
     (InstSemas (projr ImmEmitter)) = [[], [[''1'']], [[''2'']], [[''2'']]]"
proof -
  let ?E = "projr ImmEmitter"
  define T where "T = internAll [7, 1234, 1234] X86Target"
  have "\<not> isl ImmEmitter"
    by code_simp
  then have e: "newSemanticsEmitter X86Target ImmDescription = Inr ?E"
    unfolding ImmEmitter_def by (cases "newSemanticsEmitter X86Target ImmDescription") simp_all
  have cnt: "length (SemanticsRecords ImmDescription) +
             length (InstructionsByEnumValue ImmDescription) < 2 ^ 32 - 1"
    by (simp add: ImmDescription_def)
  have sl: "sessionLiterals ImmDescription = [7, 1234, 1234]"
    by code_simp
  have fs: "firstSeen [7, 1234, 1234 :: 64 word] = [7, 1234]"
    by (simp add: firstSeen_def)
  have b: "length (firstSeen ([7, 1234, 1234 :: 64 word] @ [])) < 2 ^ 32 - 1"
    by (simp add: fs)
  note c = C6_internConstant [OF b, where Eqv = "[X86add_flag \<mapsto> add]"
      and Infos = "[add \<mapsto> \<lparr>EnumName = ''ISD::ADD'', NumResults = 1\<rparr>]",
      folded X86Target_def, unfolded append_Nil2 fs, folded T_def]
  have "SemaTarget ?E = internAll (sessionLiterals ImmDescription) X86Target"
    using c [of 0] e cnt by blast
  then have tgt: "SemaTarget ?E = T"
    by (simp add: sl T_def)
  from c [of 1234] obtain j where j: "j < length [7, 1234 :: 64 word]" "[7, 1234 :: 64 word] ! j = 1234"
      "internConstant 1234 T = (of_nat (Suc j), T)"
    by auto
  have "j = 1"
    using j(1,2) by (cases j) auto
  then have first: "internConstant 1234 T = (2, T)"
    using j(3) by simp
  from c [of 7] obtain k where k: "k < length [7, 1234 :: 64 word]" "[7, 1234 :: 64 word] ! k = 7"
      "internConstant 7 T = (of_nat (Suc k), T)"
    by auto
  have "k = 0"
    using k(1,2) by (cases k) auto
  then have second: "internConstant 7 T = (1, T)"
    using k(3) by simp
  obtain Idx T' where res: "internConstant 99 T = (Idx, T')"
    by (cases "internConstant 99 T")
  have third: "unat (fst (internConstant 99 T)) = 3" "fst (internConstant 99 T) \<noteq> 0"
    using c [of 99] by (simp_all add: res)
  have ops: "map (\<lambda>Sema. map Operands (filter (\<lambda>NS. Opcode NS = ''DCINS::MOV_CONSTANT'') Sema))
     (InstSemas ?E) = [[], [[''1'']], [[''2'']], [[''2'']]]"
    by code_simp
  show ?thesis
    using first second third ops unfolding tgt by blast
qed


lemma run_pool_lists:
  assumes "printInstSemantics (InstSemas E) (InstIdx E) 1 = Inr (O1, Idxs)"
    and "pool_lists Fs (SemaTarget E)" and "length Fs < 2 ^ 32 - 1"
  shows "run E = Inr \<lparr>InstSemanticsArray = ''DCINS::END_OF_INSTRUCTION'' # O1,
                      OpcodeToSemaIdx = Idxs, ConstantArray = 0 # Fs\<rparr>"
  using assms(1) printConstantArray_pool_lists [OF assms(2,3)] by (simp add: run_def)

lemma run_ConstantArray:
  assumes "run E = Inr Out" and "pool_lists Fs (SemaTarget E)" and "length Fs < 2 ^ 32 - 1"
  shows "ConstantArray Out = 0 # Fs"
proof -
  from assms(1) obtain O1 Idxs where "printInstSemantics (InstSemas E) (InstIdx E) 1 = Inr (O1, Idxs)"
    by (auto simp: run_def split: sum.splits)
  from run_pool_lists [OF this assms(2,3)] assms(1) show ?thesis
    by auto
qed


text \<open>
  Claim C7. Let the constructor have built the emitter \<open>E\<close> from fewer than
  \<open>2 ^ 32 - 1\<close> records and instructions, whose patterns hold fewer than
  \<open>2 ^ 32 - 1\<close> distinct literals. Then \<^verbatim>\<open>run\<close> returns, and the
  \<^verbatim>\<open>ConstantArray\<close> it emits is 0 followed by the distinct literals of the session in
  the order of their first occurrence. It has one entry more than the pool; position 0
  holds 0; every entry \<open>(V, I)\<close> of the pool has \<open>V\<close> at position \<open>I\<close>; the position
  that interning a literal of the session returns holds that literal; and interning the
  value at a position \<open>j > 0\<close> returns \<open>j\<close>. More generally, whenever \<^verbatim>\<open>run\<close>
  returns for an emitter whose pool was made by interning the literals \<open>Vs\<close>, the array
  it emits is 0 followed by the distinct literals of \<open>Vs\<close>.
\<close>

theorem C7_ConstantArray:
  assumes "newSemanticsEmitter (newSemanticsTarget Eqv Infos) TD = Inr E"
    and "length (SemanticsRecords TD) + length (InstructionsByEnumValue TD) < 2 ^ 32 - 1"
    and "length (firstSeen (sessionLiterals TD)) < 2 ^ 32 - 1"
  shows "(\<exists>Out. run E = Inr Out \<and>
            ConstantArray Out = 0 # firstSeen (sessionLiterals TD) \<and>
            length (ConstantArray Out) = length (ConstantIdx (SemaTarget E)) + 1 \<and>
            ConstantArray Out ! 0 = 0 \<and>
            (\<forall>(V, I) \<in> set (ConstantIdx (SemaTarget E)).
                unat I < length (ConstantArray Out) \<and> ConstantArray Out ! unat I = V) \<and>
            (\<forall>V \<in> set (sessionLiterals TD).
                ConstantArray Out ! unat (fst (internConstant V (SemaTarget E))) = V) \<and>
            (\<forall>j. 0 < j \<and> j < length (ConstantArray Out) \<longrightarrow>
                internConstant (ConstantArray Out ! j) (SemaTarget E) = (of_nat j, SemaTarget E))) \<and>
         (\<forall>E' Out' Vs.
            run E' = Inr Out' \<and> SemaTarget E' = internAll Vs (newSemanticsTarget Eqv Infos) \<and>
            length (firstSeen Vs) < 2 ^ 32 - 1 \<longrightarrow>
            ConstantArray Out' = 0 # firstSeen Vs)"
proof -
  let ?New = "newSemanticsTarget Eqv Infos"
  let ?Vs = "sessionLiterals TD"
  let ?Fs = "firstSeen ?Vs"
  let ?T = "SemaTarget E"
  note inst = newSemanticsEmitter_installed [OF assms(1,2)]
  have tgt: "?T = internAll ?Vs ?New"
    by (rule inst(5))
  have inv: "pool_lists ?Fs ?T"
    unfolding tgt using assms(3) by (rule pool_lists_internAll)
  obtain O1 Idxs where p: "printInstSemantics (InstSemas E) (InstIdx E) 1 = Inr (O1, Idxs)"
    using installed_printInstSemantics [OF inst(4)] by blast
  define Out where "Out = \<lparr>InstSemanticsArray = ''DCINS::END_OF_INSTRUCTION'' # O1,
                      OpcodeToSemaIdx = Idxs, ConstantArray = 0 # ?Fs\<rparr>"
  have r: "run E = Inr Out"
    unfolding Out_def using p inv assms(3) by (rule run_pool_lists)
  have arr: "ConstantArray Out = 0 # ?Fs"
    by (simp add: Out_def)
  have len: "length (ConstantArray Out) = length (ConstantIdx ?T) + 1"
    using inv by (simp add: arr pool_lists_def)
  have zero: "ConstantArray Out ! 0 = 0"
    by (simp add: arr)
  have at: "(0 # ?Fs) ! unat (of_nat (Suc j) :: 32 word) = ?Fs ! j"
    and un: "unat (of_nat (Suc j) :: 32 word) = Suc j" if "j < length ?Fs" for j
  proof -
    show "unat (of_nat (Suc j) :: 32 word) = Suc j"
      using that assms(3) by (intro unat_of_nat_Suc32) simp
    then show "(0 # ?Fs) ! unat (of_nat (Suc j) :: 32 word) = ?Fs ! j"
      by (simp del: of_nat_Suc)
  qed
  have entries: "\<forall>(V, I) \<in> set (ConstantIdx ?T).
                   unat I < length (ConstantArray Out) \<and> ConstantArray Out ! unat I = V"
  proof (clarify)
    fix V I assume "(V, I) \<in> set (ConstantIdx ?T)"
    then obtain j where j: "j < length ?Fs" "?Fs ! j = V" "I = of_nat (Suc j)"
      using pool_lists_entries [OF inv] by blast
    show "unat I < length (ConstantArray Out) \<and> ConstantArray Out ! unat I = V"
      using at [OF j(1)] un [OF j(1)] j by (simp add: arr del: of_nat_Suc)
  qed
  have round: "\<forall>V \<in> set ?Vs. ConstantArray Out ! unat (fst (internConstant V ?T)) = V"
  proof
    fix V assume "V \<in> set ?Vs"
    then have "V \<in> set ?Fs"
      by (simp add: set_firstSeen)
    then obtain j where j: "j < length ?Fs" "?Fs ! j = V"
      by (auto simp: in_set_conv_nth)
    have "internConstant V ?T = (of_nat (Suc j), ?T)"
      using internConstant_present [OF inv assms(3) j(1)] j(2) by simp
    then show "ConstantArray Out ! unat (fst (internConstant V ?T)) = V"
      using at [OF j(1)] j(2) by (simp add: arr del: of_nat_Suc)
  qed
  have revtrip: "\<forall>j. 0 < j \<and> j < length (ConstantArray Out) \<longrightarrow>
                internConstant (ConstantArray Out ! j) ?T = (of_nat j, ?T)"
  proof (intro allI impI)
    fix j assume "0 < j \<and> j < length (ConstantArray Out)"
    then obtain k where k: "j = Suc k" "k < length ?Fs"
      by (cases j) (simp_all add: arr)
    have "internConstant (?Fs ! k) ?T = (of_nat (Suc k), ?T)"
      using inv assms(3) k(2) by (rule internConstant_present)
    then show "internConstant (ConstantArray Out ! j) ?T = (of_nat j, ?T)"
      by (simp add: arr k(1) del: of_nat_Suc)
  qed
  have general: "\<forall>E' Out' Vs.
            run E' = Inr Out' \<and> SemaTarget E' = internAll Vs ?New \<and>
            length (firstSeen Vs) < 2 ^ 32 - 1 \<longrightarrow>
            ConstantArray Out' = 0 # firstSeen Vs"
  proof (intro allI impI)
    fix E' Out' Vs
    assume a: "run E' = Inr Out' \<and> SemaTarget E' = internAll Vs ?New \<and>
            length (firstSeen Vs) < 2 ^ 32 - 1"
    then have "pool_lists (firstSeen Vs) (SemaTarget E')"
      using pool_lists_internAll [of Vs Eqv Infos] by simp
    then show "ConstantArray Out' = 0 # firstSeen Vs"
      using a run_ConstantArray by blast
  qed
  have "\<exists>Out. run E = Inr Out \<and>
            ConstantArray Out = 0 # ?Fs \<and>
            length (ConstantArray Out) = length (ConstantIdx ?T) + 1 \<and>
            ConstantArray Out ! 0 = 0 \<and>
            (\<forall>(V, I) \<in> set (ConstantIdx ?T).
                unat I < length (ConstantArray Out) \<and> ConstantArray Out ! unat I = V) \<and>
            (\<forall>V \<in> set ?Vs.
                ConstantArray Out ! unat (fst (internConstant V ?T)) = V) \<and>
            (\<forall>j. 0 < j \<and> j < length (ConstantArray Out) \<longrightarrow>
                internConstant (ConstantArray Out ! j) ?T = (of_nat j, ?T))"
    using r arr len zero entries round revtrip by (intro exI [of _ Out] conjI)
  then show ?thesis
    using general by (intro conjI)
qed


theorem C7_witness:
  "\<not> isl (run (projr ImmEmitter)) \<and>
   ConstantArray (projr (run (projr ImmEmitter))) = [0, 7, 1234] \<and>
   ConstantIdx (SemaTarget (projr ImmEmitter)) = [(7, 1), (1234, 2)]"
proof -
  let ?E = "projr ImmEmitter"
  have "\<not> isl ImmEmitter"
    by code_simp
  then have e: "newSemanticsEmitter X86Target ImmDescription = Inr ?E"
    unfolding ImmEmitter_def by (cases "newSemanticsEmitter X86Target ImmDescription") simp_all
  have cnt: "length (SemanticsRecords ImmDescription) +
             length (InstructionsByEnumValue ImmDescription) < 2 ^ 32 - 1"
    by (simp add: ImmDescription_def)
  have sl: "sessionLiterals ImmDescription = [7, 1234, 1234]"
    by code_simp
  have fs: "firstSeen [7, 1234, 1234 :: 64 word] = [7, 1234]"
    by (simp add: firstSeen_def)
  have b: "length (firstSeen (sessionLiterals ImmDescription)) < 2 ^ 32 - 1"
    by (simp add: sl fs)
  from C7_ConstantArray [OF e [unfolded X86Target_def] cnt b]
  obtain Out where out: "run ?E = Inr Out"
    "ConstantArray Out = 0 # firstSeen (sessionLiterals ImmDescription)"
    by blast
  have pool: "ConstantIdx (SemaTarget ?E) = [(7, 1), (1234, 2)]"
    by code_simp
  show ?thesis
    using out pool by (simp add: sl fs)
qed

section \<open>The table of offsets\<close>

lemma printSemantics_eq:
  "printSemantics Sema Cur =
     (concat (map printNode Sema), Cur + of_nat (length (concat (map printNode Sema))))"
  by (induction Sema arbitrary: Cur) (simp_all add: printNode_def add.assoc)

lemma unat_add_of_nat32:
  assumes "unat (Cur :: 32 word) + n < 2 ^ 32"
  shows "unat (Cur + of_nat n) = unat Cur + n"
proof -
  have n: "n < 2 ^ 32" using assms by simp
  have "unat (Cur + of_nat n) = (unat Cur + n mod 2 ^ 32) mod 2 ^ 32"
    by (simp add: unat_word_ariths unat_of_nat)
  also have "\<dots> = unat Cur + n"
    using assms n by simp
  finally show ?thesis .
qed

lemma nth_take_drop_hd:
  assumes "take (length B) (drop k A) = B" and "B \<noteq> []"
  shows "A ! k = hd B"
proof -
  have "drop k A \<noteq> []"
    using assms by auto
  then have k: "k < length A"
    by simp
  have "hd B = hd (take (length B) (drop k A))"
    using assms(1) by simp
  also have "\<dots> = hd (drop k A)"
    using assms(2) by (simp add: hd_take)
  also have "\<dots> = A ! k"
    using k by (rule hd_drop_conv_nth)
  finally show ?thesis by simp
qed

lemma printInstSemantics_offsets:
  assumes "printInstSemantics Semas Idxs Cur = Inr (Out, Idxs')"
    and "unat Cur + length Out < 2 ^ 32"
  shows "length Idxs' = length Idxs \<and>
         (\<forall>i < length Idxs.
            (Idxs ! i = 0 \<longrightarrow> Idxs' ! i = 0) \<and>
            (Idxs ! i \<noteq> 0 \<longrightarrow>
               unat (Idxs ! i) < length Semas \<and>
               (\<exists>k. unat (Idxs' ! i) = unat Cur + k \<and>
                    take (length (printBlock (Semas ! unat (Idxs ! i)))) (drop k Out) =
                      printBlock (Semas ! unat (Idxs ! i)))))"
  using assms
proof (induction Idxs arbitrary: Cur Out Idxs')
  case Nil
  then show ?case by simp
next
  case (Cons Idx Idxs)
  show ?case
  proof (cases "Idx = 0")
    case True
    then obtain Idxs0 where rest: "printInstSemantics Semas Idxs Cur = Inr (Out, Idxs0)"
      and res: "Idxs' = 0 # Idxs0"
      using Cons.prems(1) by (auto split: sum.splits)
    note IH = Cons.IH [OF rest Cons.prems(2)]
    show ?thesis
    proof (intro conjI allI impI)
      show "length Idxs' = length (Idx # Idxs)"
        using IH res by simp
    next
      fix i assume "i < length (Idx # Idxs)" "(Idx # Idxs) ! i = 0"
      then show "Idxs' ! i = 0"
        using IH res True by (cases i) auto
    next
      fix i assume "i < length (Idx # Idxs)" "(Idx # Idxs) ! i \<noteq> 0"
      then show "unat ((Idx # Idxs) ! i) < length Semas"
        using IH res True by (cases i) auto
    next
      fix i assume "i < length (Idx # Idxs)" "(Idx # Idxs) ! i \<noteq> 0"
      then show "\<exists>k. unat (Idxs' ! i) = unat Cur + k \<and>
           take (length (printBlock (Semas ! unat ((Idx # Idxs) ! i)))) (drop k Out) =
           printBlock (Semas ! unat ((Idx # Idxs) ! i))"
        using IH res True by (cases i) auto
    qed
  next
    case False
    let ?B = "concat (map printNode (Semas ! unat Idx))"
    let ?Cur' = "Cur + 1 + of_nat (length ?B)"
    from False Cons.prems(1) obtain Out0 Idxs0 where
      inr: "unat Idx < length Semas"
      and rest: "printInstSemantics Semas Idxs ?Cur' = Inr (Out0, Idxs0)"
      and out: "Out = ?B @ [''DCINS::END_OF_INSTRUCTION''] @ Out0"
      and res: "Idxs' = Cur # Idxs0"
      by (auto simp: printSemantics_eq split: sum.splits if_splits)
    have blk: "printBlock (Semas ! unat Idx) @ Out0 = Out"
      by (simp add: printBlock_def out)
    have lenB: "length (printBlock (Semas ! unat Idx)) = Suc (length ?B)"
      by (simp add: printBlock_def)
    have bound: "unat Cur + (1 + length ?B) < 2 ^ 32"
      using Cons.prems(2) by (simp add: out)
    have cur': "unat ?Cur' = unat Cur + Suc (length ?B)"
      using unat_add_of_nat32 [OF bound] by (simp add: add.assoc)
    have bound': "unat ?Cur' + length Out0 < 2 ^ 32"
      using Cons.prems(2) by (simp add: cur' out)
    note IH = Cons.IH [OF rest bound']
    show ?thesis
    proof (intro conjI allI impI)
      show "length Idxs' = length (Idx # Idxs)"
        using IH res by simp
    next
      fix i assume "i < length (Idx # Idxs)" "(Idx # Idxs) ! i = 0"
      then show "Idxs' ! i = 0"
        using IH res False by (cases i) auto
    next
      fix i assume "i < length (Idx # Idxs)" "(Idx # Idxs) ! i \<noteq> 0"
      then show "unat ((Idx # Idxs) ! i) < length Semas"
        using IH res inr by (cases i) auto
    next
      fix i assume i: "i < length (Idx # Idxs)" "(Idx # Idxs) ! i \<noteq> 0"
      show "\<exists>k. unat (Idxs' ! i) = unat Cur + k \<and>
           take (length (printBlock (Semas ! unat ((Idx # Idxs) ! i)))) (drop k Out) =
           printBlock (Semas ! unat ((Idx # Idxs) ! i))"
      proof (cases i)
        case 0
        have "take (length (printBlock (Semas ! unat Idx))) (drop 0 Out) =
              printBlock (Semas ! unat Idx)"
          using blk by (metis append_eq_conv_conj drop0)
        then show ?thesis
          using 0 res by (intro exI [of _ 0]) simp
      next
        case (Suc j)
        then have j: "j < length Idxs" "Idxs ! j \<noteq> 0"
          using i by simp_all
        then obtain k where k: "unat (Idxs0 ! j) = unat ?Cur' + k"
          "take (length (printBlock (Semas ! unat (Idxs ! j)))) (drop k Out0) =
             printBlock (Semas ! unat (Idxs ! j))"
          using IH by blast
        have "drop (Suc (length ?B) + k) Out = drop k Out0"
          using blk lenB by (metis add.commute append_eq_conv_conj drop_drop)
        then show ?thesis
          using k Suc res cur' by (intro exI [of _ "Suc (length ?B) + k"]) simp
      qed
    qed
  qed
qed

lemma hd_printBlock:
  "hd (printBlock Sema) =
     (case Sema of [] \<Rightarrow> ''DCINS::END_OF_INSTRUCTION'' | SI # SIs \<Rightarrow> Opcode SI)"
  by (cases Sema) (simp_all add: printBlock_def printNode_def)


text \<open>
  Semantics that were installed can be empty. The fourth instruction of the example has
  a pattern whose set has the wrong arity: \<^verbatim>\<open>flattenSet\<close> returns early, the semantics
  that \<^verbatim>\<open>addInstSemantics\<close> installs for it have no node, and yet \<^verbatim>\<open>run\<close> gives the
  instruction the offset 16, not 0; the element at that offset is the terminator, the
  whole of its block.
\<close>

theorem C5_counterexample:
  "\<not> isl X86Emitter \<and> \<not> isl (run (projr X86Emitter)) \<and>
   getInstructionPattern X86Description (TheDef (InstructionsByEnumValue X86Description ! 3)) =
     Some [BadArity] \<and>
   InstSemas (projr X86Emitter) ! unat (InstIdx (projr X86Emitter) ! 3) = [] \<and>
   OpcodeToSemaIdx (projr (run (projr X86Emitter))) ! 3 = 16 \<and>
   InstSemanticsArray (projr (run (projr X86Emitter))) ! 16 = ''DCINS::END_OF_INSTRUCTION'' \<and>
   length (InstSemanticsArray (projr (run (projr X86Emitter)))) = 17"
  by code_simp


text \<open>
  Claim C5, as the code has it. \<^verbatim>\<open>run\<close> tests \<^verbatim>\<open>InstIdx[I] == 0\<close>: an instruction
  has an entry other than 0 exactly when \<^verbatim>\<open>addInstSemantics\<close> was called for it,
  whatever the semantics installed. Let \<^verbatim>\<open>run\<close> return the arrays \<open>Out\<close>, the first
  of them with fewer than \<open>2 ^ 32\<close> elements (the offsets are \<^verbatim>\<open>unsigned\<close>). Then
  \<^verbatim>\<open>OpcodeToSemaIdx\<close> has one entry for every instruction; the entry of instruction
  \<open>i\<close> is 0 exactly when its entry of \<^verbatim>\<open>InstIdx\<close> is 0; otherwise the printed block of
  the semantics installed for \<open>i\<close> stands in \<^verbatim>\<open>InstSemantics\<close> from the offset in
  the entry on, so that the element at the offset is the opcode of the first node of the
  block. When the semantics installed are empty, the entry is still not 0 and the
  element at the offset is the terminator \<^verbatim>\<open>DCINS::END_OF_INSTRUCTION\<close>.

  For an emitter that the constructor built from fewer than \<open>2 ^ 32 - 1\<close> records and
  instructions, the entry of \<open>i\<close> is 0 exactly when no \<^verbatim>\<open>Semantics\<close> record names
  \<open>i\<close> and \<open>i\<close> has no pattern or is code-gen-only; otherwise the semantics at its
  index are what the constructor of \<^verbatim>\<open>InstSemantics\<close> made of a pattern of \<open>i\<close>.
\<close>

theorem C5_OpcodeToSemaIdx:
  assumes "run E = Inr Out"
    and "length (InstSemanticsArray Out) < 2 ^ 32"
    and "i < length (InstIdx E)"
  shows "length (OpcodeToSemaIdx Out) = length (InstIdx E) \<and>
         (OpcodeToSemaIdx Out ! i = 0 \<longleftrightarrow> InstIdx E ! i = 0) \<and>
         (InstIdx E ! i \<noteq> 0 \<longrightarrow>
            unat (InstIdx E ! i) < length (InstSemas E) \<and>
            take (length (printBlock (InstSemas E ! unat (InstIdx E ! i))))
                 (drop (unat (OpcodeToSemaIdx Out ! i)) (InstSemanticsArray Out)) =
              printBlock (InstSemas E ! unat (InstIdx E ! i)) \<and>
            InstSemanticsArray Out ! unat (OpcodeToSemaIdx Out ! i) =
              (case InstSemas E ! unat (InstIdx E ! i) of
                 [] \<Rightarrow> ''DCINS::END_OF_INSTRUCTION''
               | SI # SIs \<Rightarrow> Opcode SI)) \<and>
         (\<forall>Sema E0. addInstSemantics i Sema E0 = Inr E \<and>
             0 < length (InstSemas E0) \<and> length (InstSemas E0) < 2 ^ 32 \<longrightarrow>
             InstIdx E ! i \<noteq> 0 \<and> InstSemas E ! unat (InstIdx E ! i) = Sema) \<and>
         (InstIdx E ! i \<noteq> 0 \<and> InstSemas E ! unat (InstIdx E ! i) = [] \<longrightarrow>
            OpcodeToSemaIdx Out ! i \<noteq> 0 \<and>
            InstSemanticsArray Out ! unat (OpcodeToSemaIdx Out ! i) = ''DCINS::END_OF_INSTRUCTION'') \<and>
         (\<forall>T TD.
            newSemanticsEmitter T TD = Inr E \<and>
            length (SemanticsRecords TD) + length (InstructionsByEnumValue TD) < 2 ^ 32 - 1 \<longrightarrow>
            length (OpcodeToSemaIdx Out) = length (InstructionsByEnumValue TD) \<and>
            (OpcodeToSemaIdx Out ! i = 0 \<longleftrightarrow> \<not> hasSemantics TD i) \<and>
            (hasSemantics TD i \<longrightarrow>
               unat (InstIdx E ! i) < length (InstSemas E) \<and>
               flattenedFor TD i (InstSemas E ! unat (InstIdx E ! i))))"
proof -
  from assms(1) obtain O1 Idxs Constants where
    p: "printInstSemantics (InstSemas E) (InstIdx E) 1 = Inr (O1, Idxs)"
    and out: "Out = \<lparr>InstSemanticsArray = ''DCINS::END_OF_INSTRUCTION'' # O1,
                    OpcodeToSemaIdx = Idxs, ConstantArray = Constants\<rparr>"
    by (auto simp: run_def split: sum.splits)
  have bound: "unat (1 :: 32 word) + length O1 < 2 ^ 32"
    using assms(2) by (simp add: out)
  note offs = printInstSemantics_offsets [OF p bound]
  have len: "length (OpcodeToSemaIdx Out) = length (InstIdx E)"
    using offs by (simp add: out)
  have zero: "OpcodeToSemaIdx Out ! i = 0" if "InstIdx E ! i = 0"
    using offs assms(3) that by (simp add: out)
  have nonzero: "unat (InstIdx E ! i) < length (InstSemas E) \<and>
            take (length (printBlock (InstSemas E ! unat (InstIdx E ! i))))
                 (drop (unat (OpcodeToSemaIdx Out ! i)) (InstSemanticsArray Out)) =
              printBlock (InstSemas E ! unat (InstIdx E ! i)) \<and>
            InstSemanticsArray Out ! unat (OpcodeToSemaIdx Out ! i) =
              (case InstSemas E ! unat (InstIdx E ! i) of
                 [] \<Rightarrow> ''DCINS::END_OF_INSTRUCTION''
               | SI # SIs \<Rightarrow> Opcode SI) \<and>
            OpcodeToSemaIdx Out ! i \<noteq> 0"
    if nz: "InstIdx E ! i \<noteq> 0"
  proof -
    let ?B = "printBlock (InstSemas E ! unat (InstIdx E ! i))"
    obtain k where k: "unat (Idxs ! i) = unat (1 :: 32 word) + k"
      "take (length ?B) (drop k O1) = ?B"
      and inr: "unat (InstIdx E ! i) < length (InstSemas E)"
      using offs assms(3) nz by blast
    have off: "unat (OpcodeToSemaIdx Out ! i) = Suc k"
      using k(1) by (simp add: out)
    have tk: "take (length ?B) (drop (Suc k) (InstSemanticsArray Out)) = ?B"
      using k(2) by (simp add: out)
    have ne: "?B \<noteq> []"
      by (simp add: printBlock_def)
    have "InstSemanticsArray Out ! Suc k = hd ?B"
      using tk ne by (rule nth_take_drop_hd)
    moreover have "OpcodeToSemaIdx Out ! i \<noteq> 0"
      using off by (metis Zero_not_Suc unat_0)
    ultimately show ?thesis
      using inr tk off by (simp add: hd_printBlock)
  qed
  have installed: "InstIdx E ! i \<noteq> 0 \<and> InstSemas E ! unat (InstIdx E ! i) = Sema"
    if inst: "addInstSemantics i Sema E0 = Inr E"
      and pos: "0 < length (InstSemas E0)" and small: "length (InstSemas E0) < 2 ^ 32"
    for Sema E0
  proof -
    from inst have i0: "i < length (InstIdx E0)"
      and e: "E = E0\<lparr>InstIdx := (InstIdx E0)[i := of_nat (length (InstSemas E0))],
                     InstSemas := InstSemas E0 @ [Sema]\<rparr>"
      by (auto simp: addInstSemantics_def split: if_splits)
    have un: "unat (of_nat (length (InstSemas E0)) :: 32 word) = length (InstSemas E0)"
      using small by (intro of_nat_inverse) simp_all
    then have "(of_nat (length (InstSemas E0)) :: 32 word) \<noteq> 0"
      using pos by (metis less_numeral_extra(3) unat_0)
    then show ?thesis
      using i0 un by (simp add: e)
  qed
  have empty: "OpcodeToSemaIdx Out ! i \<noteq> 0 \<and>
            InstSemanticsArray Out ! unat (OpcodeToSemaIdx Out ! i) = ''DCINS::END_OF_INSTRUCTION''"
    if "InstIdx E ! i \<noteq> 0" "InstSemas E ! unat (InstIdx E ! i) = []"
    using nonzero [OF that(1)] that(2) by simp
  have built: "length (OpcodeToSemaIdx Out) = length (InstructionsByEnumValue TD) \<and>
            (OpcodeToSemaIdx Out ! i = 0 \<longleftrightarrow> \<not> hasSemantics TD i) \<and>
            (hasSemantics TD i \<longrightarrow>
               unat (InstIdx E ! i) < length (InstSemas E) \<and>
               flattenedFor TD i (InstSemas E ! unat (InstIdx E ! i)))"
    if new: "newSemanticsEmitter T TD = Inr E"
      and count: "length (SemanticsRecords TD) + length (InstructionsByEnumValue TD) < 2 ^ 32 - 1"
    for T TD
  proof -
    note inst = newSemanticsEmitter_installed [OF new count]
    have has: "InstIdx E ! i \<noteq> 0 \<longleftrightarrow> hasSemantics TD i"
      using inst(3) assms(3) by blast
    have "OpcodeToSemaIdx Out ! i = 0 \<longleftrightarrow> InstIdx E ! i = 0"
      using zero nonzero by blast
    then have iff: "OpcodeToSemaIdx Out ! i = 0 \<longleftrightarrow> \<not> hasSemantics TD i"
      using has by blast
    have "unat (InstIdx E ! i) < length (InstSemas E) \<and>
          flattenedFor TD i (InstSemas E ! unat (InstIdx E ! i))" if "hasSemantics TD i"
      using inst(4) has that assms(3) unfolding installed_def by blast
    then show ?thesis
      using iff len inst(1) by simp
  qed
  show ?thesis
    using len zero nonzero installed empty built by blast
qed

theorem C5_witness:
  "OpcodeToSemaIdx (projr (run (projr X86Emitter))) = [0, 1, 0, 16] \<and>
   take (length (printBlock (InstSemas (projr X86Emitter) ! unat (InstIdx (projr X86Emitter) ! 1))))
        (drop (unat (OpcodeToSemaIdx (projr (run (projr X86Emitter))) ! 1))
           (InstSemanticsArray (projr (run (projr X86Emitter))))) =
     printBlock (InstSemas (projr X86Emitter) ! unat (InstIdx (projr X86Emitter) ! 1)) \<and>
   InstSemanticsArray (projr (run (projr X86Emitter))) !
       unat (OpcodeToSemaIdx (projr (run (projr X86Emitter))) ! 1) = ''DCINS::GET_RC'' \<and>
   OpcodeToSemaIdx (projr (run (projr X86Emitter))) ! 2 = 0 \<and>
   \<not> hasSemantics X86Description 2 \<and>
   hasSemantics X86Description 3 \<and>
   InstSemanticsArray (projr (run (projr X86Emitter))) !
       unat (OpcodeToSemaIdx (projr (run (projr X86Emitter))) ! 3) = ''DCINS::END_OF_INSTRUCTION''"
proof -
  let ?E = "projr X86Emitter"
  let ?O = "projr (run ?E)"
  have "\<not> isl X86Emitter"
    by code_simp
  then have e: "newSemanticsEmitter X86Target X86Description = Inr ?E"
    unfolding X86Emitter_def by (cases "newSemanticsEmitter X86Target X86Description") simp_all
  have cnt: "length (SemanticsRecords X86Description) +
             length (InstructionsByEnumValue X86Description) < 2 ^ 32 - 1"
    by (simp add: X86Description_def)
  have "\<not> isl (run ?E)"
    by code_simp
  then have r: "run ?E = Inr ?O"
    by (cases "run ?E") simp_all
  have "length (InstSemanticsArray ?O) = 17"
    by code_simp
  then have b: "length (InstSemanticsArray ?O) < 2 ^ 32"
    by simp
  have i1: "1 < length (InstIdx ?E)" and i2: "2 < length (InstIdx ?E)"
    and i3: "3 < length (InstIdx ?E)"
    by code_simp+
  have nz: "InstIdx ?E ! 1 \<noteq> 0" and z: "InstIdx ?E ! 2 = 0" and nz3: "InstIdx ?E ! 3 \<noteq> 0"
    by code_simp+
  have empty: "InstSemas ?E ! unat (InstIdx ?E ! 3) = []"
    by code_simp
  have idx: "OpcodeToSemaIdx ?O = [0, 1, 0, 16]"
    by code_simp
  have hd: "(case InstSemas ?E ! unat (InstIdx ?E ! 1) of
                 [] \<Rightarrow> ''DCINS::END_OF_INSTRUCTION''
               | SI # SIs \<Rightarrow> Opcode SI) = ''DCINS::GET_RC''"
    by code_simp
  from C5_OpcodeToSemaIdx [OF r b i1] nz
  have "take (length (printBlock (InstSemas ?E ! unat (InstIdx ?E ! 1))))
             (drop (unat (OpcodeToSemaIdx ?O ! 1)) (InstSemanticsArray ?O)) =
          printBlock (InstSemas ?E ! unat (InstIdx ?E ! 1))"
    and "InstSemanticsArray ?O ! unat (OpcodeToSemaIdx ?O ! 1) =
          (case InstSemas ?E ! unat (InstIdx ?E ! 1) of
                 [] \<Rightarrow> ''DCINS::END_OF_INSTRUCTION''
               | SI # SIs \<Rightarrow> Opcode SI)"
    by blast+
  moreover from C5_OpcodeToSemaIdx [OF r b i2] z e cnt
  have "OpcodeToSemaIdx ?O ! 2 = 0" and "\<not> hasSemantics X86Description 2"
    by blast+
  moreover from C5_OpcodeToSemaIdx [OF r b i3] nz3 empty e cnt
  have "hasSemantics X86Description 3"
    and "InstSemanticsArray ?O ! unat (OpcodeToSemaIdx ?O ! 3) = ''DCINS::END_OF_INSTRUCTION''"
    by blast+
  ultimately show ?thesis
    using idx hd by simp
qed

end
